theory Spec2Isabelle
  imports Complex_Main "HOL-Library.AList"
begin

section \<open>Strings\<close>

text \<open>
  Python's \<^verbatim>\<open>a in b\<close> on two strings: \<open>a\<close> occurs in \<open>b\<close> as a contiguous
  substring. The empty string occurs in every string.
\<close>

fun is_prefix :: "string \<Rightarrow> string \<Rightarrow> bool" where
  "is_prefix [] t = True"
| "is_prefix (a # s) [] = False"
| "is_prefix (a # s) (b # t) = (a = b \<and> is_prefix s t)"

fun str_in :: "string \<Rightarrow> string \<Rightarrow> bool" where
  "str_in s [] = (s = [])"
| "str_in s (c # cs) = (is_prefix s (c # cs) \<or> str_in s cs)"

section \<open>Data model\<close>

text \<open>
  One entry of \<^verbatim>\<open>site_data\<close>: the dictionary \<^verbatim>\<open>net_info\<close> of one site. The keys
  \<^verbatim>\<open>url\<close> and \<^verbatim>\<open>errorType\<close> are read with \<^verbatim>\<open>[]\<close> or used without a check and are
  always present; every key read with \<^verbatim>\<open>.get\<close> is an option.
  \<^verbatim>\<open>errorMsg\<close> is a string or a list of strings. \<^verbatim>\<open>request_future\<close> is the key that
  \<^verbatim>\<open>sherlock\<close> itself writes into the dictionary.
\<close>

datatype error_msg = Msg string | Msgs "string list"

datatype http_method = HEAD | GET

record response =
  status_code :: int
  r_text :: string
  elapsed :: real
  encoded :: "string option"

text \<open>
  What \<^verbatim>\<open>request_future.result()\<close> does: it returns the response, or raises one of the
  \<^verbatim>\<open>requests\<close> exceptions; the constructor names the first \<^verbatim>\<open>except\<close> clause of
  \<^verbatim>\<open>get_response\<close> that catches it, the string is \<^verbatim>\<open>str\<close> of the exception.
  These are the transport failures; an exception of any other class is caught nowhere
  and is not part of the model.
\<close>

datatype request_exception = HTTPError | ProxyError | ConnectionError | Timeout | RequestException

datatype outcome = Delivered response | Raised request_exception string

record net_info =
  ni_type :: "string option"
  ni_tags :: "string list option"
  urlMain :: "string option"
  url :: string
  urlProbe :: "string option"
  regexCheck :: "string option"
  errorType :: string
  request_head_only :: "bool option"
  errors :: "(string \<times> string) list option"
  errorMsg :: "error_msg option"
  headers :: "(string \<times> string) list option"
  request_future :: "outcome option"

datatype QueryStatus = CLAIMED | AVAILABLE | UNKNOWN | ILLEGAL

text \<open>
  \<^verbatim>\<open>QueryResult(username, site_name, site_url_user, status, ids_data, query_time, context)\<close>.
  \<^verbatim>\<open>ids_data\<close> is \<open>None\<close> for the empty string \<^verbatim>\<open>""\<close> the source starts from (and where
  the argument is not passed), and the extracted dictionary otherwise.
\<close>

record QueryResult =
  qr_username :: string
  qr_site_name :: string
  qr_site_url_user :: string
  qr_status :: QueryStatus
  qr_ids_data :: "(string \<times> string) list option"
  qr_query_time :: "real option"
  qr_context :: "string option"

datatype http_status = Code int | Marker string

record results_site =
  url_main :: "string option"
  url_user :: string
  status :: "QueryResult option"
  rs_http_status :: "http_status option"
  response_text :: "string option"
  ids_usernames :: "(string \<times> string) list option"

record request =
  req_method :: http_method
  req_url :: string
  req_headers :: "(string \<times> string) list"
  req_proxies :: "(string \<times> string) list option"
  req_allow_redirects :: bool
  req_timeout :: "real option"

text \<open>
  The effects of a run, in program order: the three calls on \<^verbatim>\<open>query_notify\<close>, the
  construction of the session with its worker pool, each request handed to the session
  (labelled with the site it is for), and each reset of the Tor identity.
\<close>

datatype event =
    Start string string
  | NewSession bool nat
  | Request string request
  | ResetIdentity
  | Update QueryResult
  | Finish

datatype error =
    AttributeError
  | TypeError
  | KeyError
  | FormatError
  | PoolError
  | TorAndProxy
  | ValueError string string

text \<open>
  The collaborators the code calls and does not define: \<^verbatim>\<open>re.search\<close> (true when it finds
  a match), \<^verbatim>\<open>str.format\<close> with the one argument \<^verbatim>\<open>username\<close> (\<open>None\<close> when it raises on
  the template), \<^verbatim>\<open>str.lower\<close>, \<^verbatim>\<open>socid_extractor.extract\<close> (the items of the dictionary it
  returns), and the network: the outcome of the request made for a user name at a site.
\<close>

record world =
  re_search :: "string \<Rightarrow> string \<Rightarrow> bool"
  str_format :: "string \<Rightarrow> string \<Rightarrow> string option"
  str_lower :: "string \<Rightarrow> string"
  socid_extract :: "string \<Rightarrow> (string \<times> string) list"
  net :: "string \<Rightarrow> string \<Rightarrow> request \<Rightarrow> outcome"

text \<open>The keyword arguments of \<^verbatim>\<open>sherlock\<close> that stay the same for a whole run.\<close>

record config =
  tor :: bool
  unique_tor :: bool
  proxy :: "string option"
  timeout :: "real option"
  ids_search :: bool
  tags :: "string list"

section \<open>\<^verbatim>\<open>get_response\<close>\<close>

definition get_response :: "outcome \<Rightarrow> response option \<times> string option \<times> string option" where
  "get_response future =
     (case future of
        Delivered response \<Rightarrow>
          (Some response,
           if status_code response \<noteq> 0 then None else Some ''General Unknown Error'',
           None)
      | Raised HTTPError errh \<Rightarrow> (None, Some ''HTTP Error'', Some errh)
      | Raised ProxyError errp \<Rightarrow> (None, Some ''Proxy Error'', Some errp)
      | Raised ConnectionError errc \<Rightarrow> (None, Some ''Error Connecting'', Some errc)
      | Raised Timeout errt \<Rightarrow> (None, Some ''Timeout Error'', Some errt)
      | Raised RequestException err \<Rightarrow> (None, Some ''Unknown Error'', Some err))"

section \<open>The collection loop of \<^verbatim>\<open>sherlock\<close>, one site\<close>

text \<open>
  The loop over \<^verbatim>\<open>failure_errors.items()\<close>: the first declared text that occurs in
  \<^verbatim>\<open>r.text\<close> replaces \<^verbatim>\<open>error_text\<close> with its comment. \<^verbatim>\<open>r.text\<close> is read in every
  iteration, outside any \<^verbatim>\<open>try\<close>: with no response it raises AttributeError.
\<close>

fun scan_failures ::
  "(string \<times> string) list \<Rightarrow> response option \<Rightarrow> string option \<Rightarrow> error + string option" where
  "scan_failures [] r error_text = Inr error_text"
| "scan_failures ((text, comment) # rest) r error_text =
     (case r of
        None \<Rightarrow> Inl AttributeError
      | Some resp \<Rightarrow>
          if str_in text (r_text resp) then Inr (Some comment)
          else scan_failures rest r error_text)"

text \<open>
  The truth value of a \<^verbatim>\<open>requests\<close> response is its \<^verbatim>\<open>ok\<close>: false exactly for the status
  codes for which \<^verbatim>\<open>raise_for_status\<close> raises, 400 to 599.
\<close>

definition response_ok :: "response \<Rightarrow> bool" where
  "response_ok r = (\<not> (400 \<le> status_code r \<and> status_code r < 600))"

text \<open>The loop that builds \<^verbatim>\<open>new_usernames\<close> from the extracted items.\<close>

definition new_username_step ::
  "string \<times> string \<Rightarrow> (string \<times> string) list \<Rightarrow> (string \<times> string) list" where
  "new_username_step kv new_usernames =
     (case kv of (k, v) \<Rightarrow>
        let n1 = (if str_in ''username'' k then AList.update v ''username'' new_usernames
                  else new_usernames)
        in if k \<in> set [''yandex_public_id'', ''wikimapia_uid'', ''gaia_id'']
           then AList.update v k n1 else n1)"

definition new_usernames_of :: "(string \<times> string) list \<Rightarrow> (string \<times> string) list" where
  "new_usernames_of extracted_ids_data = fold new_username_step extracted_ids_data []"

definition extract_ids ::
  "world \<Rightarrow> bool \<Rightarrow> response option \<Rightarrow>
     (string \<times> string) list option \<times> (string \<times> string) list option" where
  "extract_ids w ids r =
     (case r of
        None \<Rightarrow> (None, None)
      | Some resp \<Rightarrow>
          if ids \<and> response_ok resp then
            (let extracted_ids_data = socid_extract w (r_text resp)
             in (Some extracted_ids_data,
                 if extracted_ids_data \<noteq> [] then Some (new_usernames_of extracted_ids_data)
                 else None))
          else (None, None))"

definition mk_result ::
  "string \<Rightarrow> string \<Rightarrow> string \<Rightarrow> QueryStatus \<Rightarrow> (string \<times> string) list option \<Rightarrow>
     real option \<Rightarrow> string option \<Rightarrow> QueryResult" where
  "mk_result username social_network u st ids_data query_time context =
     \<lparr>qr_username = username, qr_site_name = social_network, qr_site_url_user = u,
      qr_status = st, qr_ids_data = ids_data, qr_query_time = query_time,
      qr_context = context\<rparr>"

text \<open>
  \<^verbatim>\<open>any([(err in r.text) for err in errors_set])\<close>: \<^verbatim>\<open>r.text\<close> is read once for each
  element, so an empty list never reads it.
\<close>

definition error_found :: "string list \<Rightarrow> response option \<Rightarrow> error + bool" where
  "error_found errors_set r =
     (if errors_set = [] then Inr False
      else case r of
             None \<Rightarrow> Inl AttributeError
           | Some resp \<Rightarrow> Inr (\<exists>err \<in> set errors_set. str_in err (r_text resp)))"

text \<open>
  The chain \<^verbatim>\<open>if error_text is not None ... elif error_type == ... else raise\<close> that
  builds \<^verbatim>\<open>result\<close>. The test of the \<^verbatim>\<open>status_code\<close> branch is written in the source as
  \<^verbatim>\<open>not r.status_code >= 300 or r.status_code < 200\<close>, where \<^verbatim>\<open>not\<close> binds tighter than
  \<^verbatim>\<open>or\<close>.
\<close>

definition classify ::
  "string \<Rightarrow> string \<Rightarrow> string \<Rightarrow> net_info \<Rightarrow> response option \<Rightarrow> string option \<Rightarrow>
     (string \<times> string) list option \<Rightarrow> real option \<Rightarrow> error + QueryResult" where
  "classify username social_network u net_info r error_text extracted_ids_data response_time =
     (if error_text \<noteq> None then
        Inr (mk_result username social_network u UNKNOWN extracted_ids_data response_time
               error_text)
      else if errorType net_info = ''message'' then
        (case (case errorMsg net_info of
                 None \<Rightarrow> (case r of None \<Rightarrow> Inl AttributeError | Some resp \<Rightarrow> Inl TypeError)
               | Some (Msgs error) \<Rightarrow> error_found error r
               | Some (Msg error) \<Rightarrow> error_found [error] r) of
           Inl e \<Rightarrow> Inl e
         | Inr found \<Rightarrow>
             if \<not> found then
               Inr (mk_result username social_network u CLAIMED extracted_ids_data
                      response_time None)
             else
               Inr (mk_result username social_network u AVAILABLE extracted_ids_data
                      response_time None))
      else if errorType net_info = ''status_code'' then
        (case r of
           None \<Rightarrow> Inl AttributeError
         | Some resp \<Rightarrow>
             if (\<not> status_code resp \<ge> 300) \<or> status_code resp < 200 then
               Inr (mk_result username social_network u CLAIMED extracted_ids_data
                      response_time None)
             else
               Inr (mk_result username social_network u AVAILABLE extracted_ids_data
                      response_time None))
      else if errorType net_info = ''response_url'' then
        (case r of
           None \<Rightarrow> Inl AttributeError
         | Some resp \<Rightarrow>
             if 200 \<le> status_code resp \<and> status_code resp < 300 then
               Inr (mk_result username social_network u CLAIMED extracted_ids_data
                      response_time None)
             else
               Inr (mk_result username social_network u AVAILABLE extracted_ids_data
                      response_time None))
      else Inl (ValueError (errorType net_info) social_network))"

text \<open>
  The part of the second loop's body that runs from \<^verbatim>\<open>get_response\<close> to the chain
  that builds \<^verbatim>\<open>result\<close>, for the site's dictionary, the user's URL at the site and the
  future of its request: the result, the \<^verbatim>\<open>new_usernames\<close> to store (if any),
  \<^verbatim>\<open>http_status\<close> and \<^verbatim>\<open>response_text\<close>; or the exception raised.
\<close>

definition site_result ::
  "world \<Rightarrow> config \<Rightarrow> string \<Rightarrow> string \<Rightarrow> string \<Rightarrow> net_info \<Rightarrow> outcome \<Rightarrow>
     error + QueryResult \<times> (string \<times> string) list option \<times> http_status \<times> string" where
  "site_result w cfg username social_network u net_info future =
     (case get_response future of (r, error_text0, expection_text) \<Rightarrow>
        let response_time = map_option elapsed r;
            http_status = (case r of None \<Rightarrow> Marker ''?''
                           | Some resp \<Rightarrow> Code (status_code resp));
            resp_text = (case r of None \<Rightarrow> []
                         | Some resp \<Rightarrow> (case encoded resp of None \<Rightarrow> [] | Some b \<Rightarrow> b))
        in
        (case scan_failures (case errors net_info of None \<Rightarrow> [] | Some fe \<Rightarrow> fe)
                r error_text0 of
           Inl e \<Rightarrow> Inl e
         | Inr error_text \<Rightarrow>
             (case extract_ids w (ids_search cfg) r of
                (extracted_ids_data, new_usernames) \<Rightarrow>
                  (case classify username social_network u net_info r error_text
                          extracted_ids_data response_time of
                     Inl e \<Rightarrow> Inl e
                   | Inr result \<Rightarrow> Inr (result, new_usernames, http_status, resp_text)))))"

text \<open>
  The body of the second loop of \<^verbatim>\<open>sherlock\<close> for one site: the events it emits and,
  unless it raises, the updated \<^verbatim>\<open>results_total\<close>.
\<close>

definition collect_site ::
  "world \<Rightarrow> config \<Rightarrow> string \<Rightarrow> string \<Rightarrow> net_info \<Rightarrow> (string \<times> results_site) list \<Rightarrow>
     event list \<times> (error + (string \<times> results_site) list)" where
  "collect_site w cfg username social_network net_info results_total =
     (case map_of results_total social_network of
        None \<Rightarrow> ([], Inr results_total)
      | Some results_site \<Rightarrow>
          if status results_site \<noteq> None then ([], Inr results_total)
          else
            (case request_future net_info of
               None \<Rightarrow> ([], Inl KeyError)
             | Some future \<Rightarrow>
                 (case site_result w cfg username social_network (url_user results_site)
                         net_info future of
                    Inl e \<Rightarrow> ([], Inl e)
                  | Inr (result, new_usernames, http_status, resp_text) \<Rightarrow>
                      ([Update result],
                       Inr (AList.update social_network
                              ((case new_usernames of
                                  None \<Rightarrow> results_site
                                | Some n \<Rightarrow> results_site\<lparr>ids_usernames := Some n\<rparr>)
                                 \<lparr>status := Some result,
                                  rs_http_status := Some http_status,
                                  response_text := Some resp_text\<rparr>)
                              results_total)))))"

section \<open>The dispatch loop of \<^verbatim>\<open>sherlock\<close>, one site\<close>

definition site_type :: "net_info \<Rightarrow> string" where
  "site_type net_info = (case ni_type net_info of None \<Rightarrow> ''username'' | Some t \<Rightarrow> t)"

definition site_tags :: "net_info \<Rightarrow> string list" where
  "site_tags net_info = (case ni_tags net_info of None \<Rightarrow> [] | Some ts \<Rightarrow> ts)"

text \<open>The two \<^verbatim>\<open>continue\<close> statements at the head of the first loop.\<close>

definition skipped :: "config \<Rightarrow> string \<Rightarrow> net_info \<Rightarrow> bool" where
  "skipped cfg id_type net_info =
     (if site_type net_info \<noteq> id_type then True
      else if tags cfg \<noteq> [] then \<not> (\<exists>t \<in> set (tags cfg). t \<in> set (site_tags net_info))
      else False)"

definition default_headers :: "(string \<times> string) list" where
  "default_headers =
     [(''User-Agent'',
       ''Mozilla/5.0 (Macintosh; Intel Mac OS X 11.1; rv:55.0) Gecko/20100101 Firefox/55.0'')]"

definition request_headers :: "net_info \<Rightarrow> (string \<times> string) list" where
  "request_headers net_info =
     (case headers net_info of
        None \<Rightarrow> default_headers
      | Some h \<Rightarrow> fold (\<lambda>(k, v). AList.update k v) h default_headers)"

definition request_method :: "net_info \<Rightarrow> http_method" where
  "request_method net_info =
     (if errorType net_info = ''status_code''
         \<and> (case request_head_only net_info of None \<Rightarrow> True | Some b \<Rightarrow> b) = True
      then HEAD else GET)"

definition allow_redirects :: "net_info \<Rightarrow> bool" where
  "allow_redirects net_info = (if errorType net_info = ''response_url'' then False else True)"

definition regex_rejects :: "world \<Rightarrow> net_info \<Rightarrow> string \<Rightarrow> bool" where
  "regex_rejects w net_info username =
     (case regexCheck net_info of
        None \<Rightarrow> False
      | Some regex_check \<Rightarrow> regex_check \<noteq> [] \<and> \<not> re_search w regex_check username)"

text \<open>
  The request handed to the session: \<^verbatim>\<open>request_method(url=url_probe, headers=headers,
  proxies=proxies, allow_redirects=allow_redirects, timeout=timeout)\<close>, with \<^verbatim>\<open>proxies\<close>
  only when a proxy is configured.
\<close>

definition probe_request :: "config \<Rightarrow> net_info \<Rightarrow> string \<Rightarrow> request" where
  "probe_request cfg net_info url_probe =
     \<lparr>req_method = request_method net_info, req_url = url_probe,
      req_headers = request_headers net_info,
      req_proxies =
        (case proxy cfg of
           None \<Rightarrow> None
         | Some p \<Rightarrow> Some [(''http'', p), (''https'', p)]),
      req_allow_redirects = allow_redirects net_info,
      req_timeout = timeout cfg\<rparr>"

text \<open>
  The body of the first loop for one site: the events it emits and, unless
  \<^verbatim>\<open>format\<close> raises, the site's dictionary (with the future stored in it when a request
  was made) and the \<^verbatim>\<open>results_site\<close> to enter into \<^verbatim>\<open>results_total\<close> (\<open>None\<close> after
  \<^verbatim>\<open>continue\<close>). The cookies the source computes are passed to no request.
\<close>

definition dispatch_site ::
  "world \<Rightarrow> config \<Rightarrow> string \<Rightarrow> string \<Rightarrow> string \<Rightarrow> net_info \<Rightarrow>
     event list \<times> (error + net_info \<times> results_site option)" where
  "dispatch_site w cfg username id_type social_network net_info =
     (if skipped cfg id_type net_info then ([], Inr (net_info, None))
      else
        (case str_format w (url net_info) username of
           None \<Rightarrow> ([], Inl FormatError)
         | Some u \<Rightarrow>
             if regex_rejects w net_info username then
               (let st = mk_result username social_network u ILLEGAL None None None
                in ([Update st],
                    Inr (net_info,
                         Some \<lparr>url_main = urlMain net_info, url_user = [],
                               status = Some st, rs_http_status = Some (Marker []),
                               response_text = Some [], ids_usernames = None\<rparr>)))
             else
               (case (case urlProbe net_info of
                        None \<Rightarrow> Some u
                      | Some url_probe \<Rightarrow> str_format w url_probe username) of
                  None \<Rightarrow> ([], Inl FormatError)
                | Some url_probe \<Rightarrow>
                    (let req = probe_request cfg net_info url_probe;
                         future = net w username social_network req
                     in (Request social_network req
                           # (if unique_tor cfg then [ResetIdentity] else []),
                         Inr (net_info\<lparr>request_future := Some future\<rparr>,
                              Some \<lparr>url_main = urlMain net_info, url_user = u,
                                    status = None, rs_http_status = None,
                                    response_text = None, ids_usernames = None\<rparr>))))))"

section \<open>\<^verbatim>\<open>sherlock\<close>\<close>

text \<open>
  \<^verbatim>\<open>site_data\<close> is a dictionary, kept as the list of its items in iteration order; its
  keys are the site names, each once. The first loop writes the future into the site's
  dictionary, so the loop returns the items as it leaves them.
\<close>

fun dispatch ::
  "world \<Rightarrow> config \<Rightarrow> string \<Rightarrow> string \<Rightarrow> (string \<times> net_info) list \<Rightarrow>
     (string \<times> results_site) list \<Rightarrow>
     event list \<times> (error + (string \<times> net_info) list \<times> (string \<times> results_site) list)" where
  "dispatch w cfg username id_type [] results_total = ([], Inr ([], results_total))"
| "dispatch w cfg username id_type ((social_network, net_info) # rest) results_total =
     (case dispatch_site w cfg username id_type social_network net_info of
        (ev, Inl e) \<Rightarrow> (ev, Inl e)
      | (ev, Inr (net_info', rs)) \<Rightarrow>
          (case dispatch w cfg username id_type rest
                  (case rs of
                     None \<Rightarrow> results_total
                   | Some results_site \<Rightarrow>
                       AList.update social_network results_site results_total) of
             (ev', Inl e) \<Rightarrow> (ev @ ev', Inl e)
           | (ev', Inr (rest', results_total')) \<Rightarrow>
               (ev @ ev', Inr ((social_network, net_info') # rest', results_total'))))"

fun collect ::
  "world \<Rightarrow> config \<Rightarrow> string \<Rightarrow> (string \<times> net_info) list \<Rightarrow> (string \<times> results_site) list \<Rightarrow>
     event list \<times> (error + (string \<times> results_site) list)" where
  "collect w cfg username [] results_total = ([], Inr results_total)"
| "collect w cfg username ((social_network, net_info) # rest) results_total =
     (case collect_site w cfg username social_network net_info results_total of
        (ev, Inl e) \<Rightarrow> (ev, Inl e)
      | (ev, Inr results_total') \<Rightarrow>
          (case collect w cfg username rest results_total' of
             (ev', res) \<Rightarrow> (ev @ ev', res)))"

definition max_workers :: "(string \<times> net_info) list \<Rightarrow> nat" where
  "max_workers site_data = (if length site_data \<ge> 20 then 20 else length site_data)"

text \<open>
  The session is a \<^verbatim>\<open>FuturesSession\<close>, whose thread pool refuses \<^verbatim>\<open>max_workers = 0\<close>
  with an exception. On an exception the events emitted so far stay emitted.
\<close>

definition sherlock ::
  "world \<Rightarrow> config \<Rightarrow> string \<Rightarrow> string \<Rightarrow> (string \<times> net_info) list \<Rightarrow>
     event list \<times> (error + (string \<times> net_info) list \<times> (string \<times> results_site) list)" where
  "sherlock w cfg username id_type site_data =
     (if max_workers site_data = 0 then ([Start username id_type], Inl PoolError)
      else
        (let ev0 = [Start username id_type,
                    NewSession (tor cfg \<or> unique_tor cfg) (max_workers site_data)]
         in case dispatch w cfg username id_type site_data [] of
              (ev1, Inl e) \<Rightarrow> (ev0 @ ev1, Inl e)
            | (ev1, Inr (site_data', results_total)) \<Rightarrow>
                (case collect w cfg username site_data' results_total of
                   (ev2, Inl e) \<Rightarrow> (ev0 @ ev1 @ ev2, Inl e)
                 | (ev2, Inr results_total') \<Rightarrow>
                     (ev0 @ ev1 @ ev2 @ [Finish], Inr (site_data', results_total')))))"

section \<open>The loop of \<^verbatim>\<open>main\<close>\<close>

text \<open>
  The state of the loop: the dictionary \<^verbatim>\<open>usernames\<close> (items in insertion order), the set
  \<^verbatim>\<open>already_checked\<close>, the site data, and the events emitted so far. The report files
  that \<^verbatim>\<open>main\<close> writes are left out, and so are the options that select and order the
  sites before the loop starts: the loop is given the site data they leave.
\<close>

record driver =
  d_usernames :: "(string \<times> string) list"
  d_already_checked :: "string set"
  d_site_data :: "(string \<times> net_info) list"
  d_events :: "event list"

text \<open>
  The loop over \<^verbatim>\<open>results\<close> after a round: every \<^verbatim>\<open>ids_usernames\<close> entry is written
  into \<^verbatim>\<open>usernames\<close>, and the \<^verbatim>\<open>status\<close> of every site is read.
\<close>

fun harvest ::
  "(string \<times> results_site) list \<Rightarrow> (string \<times> string) list \<Rightarrow> error + (string \<times> string) list" where
  "harvest [] usernames = Inr usernames"
| "harvest ((website_name, dictionary) # rest) usernames =
     (let usernames1 =
            (case ids_usernames dictionary of
               None \<Rightarrow> usernames
             | Some new_usernames \<Rightarrow>
                 fold (\<lambda>(u, utype). AList.update u utype) new_usernames usernames)
      in case status dictionary of
           None \<Rightarrow> Inl AttributeError
         | Some st \<Rightarrow> harvest rest usernames1)"

text \<open>
  One iteration of \<^verbatim>\<open>while usernames\<close>, for a non-empty \<^verbatim>\<open>usernames\<close> whose first item
  is \<open>(username, id_type)\<close>: the state after it, and the exception that ended it, if any.
\<close>

definition main_step ::
  "world \<Rightarrow> config \<Rightarrow> string \<Rightarrow> string \<Rightarrow> driver \<Rightarrow> error option \<times> driver" where
  "main_step w cfg username id_type d =
     (let d1 = d\<lparr>d_usernames := AList.delete username (d_usernames d)\<rparr>
      in if str_lower w username \<in> d_already_checked d1 then (None, d1)
         else
           (let d2 = d1\<lparr>d_already_checked :=
                         insert (str_lower w username) (d_already_checked d1)\<rparr>
            in case sherlock w cfg username id_type (d_site_data d2) of
                 (ev, Inl e) \<Rightarrow> (Some e, d2\<lparr>d_events := d_events d2 @ ev\<rparr>)
               | (ev, Inr (site_data', results)) \<Rightarrow>
                   (case harvest results (d_usernames d2) of
                      Inl e \<Rightarrow>
                        (Some e, d2\<lparr>d_events := d_events d2 @ ev, d_site_data := site_data'\<rparr>)
                    | Inr usernames' \<Rightarrow>
                        (None, d2\<lparr>d_events := d_events d2 @ ev, d_site_data := site_data',
                                  d_usernames := usernames'\<rparr>))))"

text \<open>
  The loop has no bound of its own: every round may discover new identifiers. It is run
  on fuel, one unit for each iteration; \<open>OutOfFuel\<close> is a run that has not ended yet.
\<close>

datatype run_end = Finished | Aborted error | OutOfFuel

fun main_loop :: "nat \<Rightarrow> world \<Rightarrow> config \<Rightarrow> driver \<Rightarrow> run_end \<times> driver" where
  "main_loop 0 w cfg d = (if d_usernames d = [] then Finished else OutOfFuel, d)"
| "main_loop (Suc n) w cfg d =
     (case d_usernames d of
        [] \<Rightarrow> (Finished, d)
      | (username, id_type) # rest \<Rightarrow>
          (case main_step w cfg username id_type d of
             (Some e, d') \<Rightarrow> (Aborted e, d')
           | (None, d') \<Rightarrow> main_loop n w cfg d'))"

text \<open>
  The initial dictionary \<^verbatim>\<open>{u: 'username' for u in args.username if u not in ('-')}\<close>;
  \<^verbatim>\<open>('-')\<close> is the string \<^verbatim>\<open>'-'\<close>.
\<close>

definition initial_usernames :: "string list \<Rightarrow> (string \<times> string) list" where
  "initial_usernames args_username =
     fold (\<lambda>u q. if \<not> str_in u ''-'' then AList.update u ''username'' q else q)
       args_username []"

definition initial_driver :: "(string \<times> net_info) list \<Rightarrow> string list \<Rightarrow> driver" where
  "initial_driver site_data args_username =
     \<lparr>d_usernames = initial_usernames args_username, d_already_checked = {},
      d_site_data = site_data, d_events = []\<rparr>"

definition main ::
  "nat \<Rightarrow> world \<Rightarrow> config \<Rightarrow> (string \<times> net_info) list \<Rightarrow> string list \<Rightarrow> run_end \<times> driver" where
  "main fuel w cfg site_data args_username =
     (if tor cfg \<and> proxy cfg \<noteq> None
      then (Aborted TorAndProxy, initial_driver site_data args_username)
      else main_loop fuel w cfg (initial_driver site_data args_username))"

section \<open>Observations on the events of a run\<close>

text \<open>The results handed to \<^verbatim>\<open>query_notify.update\<close>, in order.\<close>

fun verdicts :: "event list \<Rightarrow> QueryResult list" where
  "verdicts [] = []"
| "verdicts (Update q # es) = q # verdicts es"
| "verdicts (e # es) = verdicts es"

text \<open>The user names handed to \<^verbatim>\<open>query_notify.start\<close>, in order.\<close>

fun starts :: "event list \<Rightarrow> string list" where
  "starts [] = []"
| "starts (Start u k # es) = u # starts es"
| "starts (e # es) = starts es"

text \<open>The sizes of the worker pools created, in order.\<close>

fun pool_sizes :: "event list \<Rightarrow> nat list" where
  "pool_sizes [] = []"
| "pool_sizes (NewSession t n # es) = n # pool_sizes es"
| "pool_sizes (e # es) = pool_sizes es"

text \<open>The sites to which a request was issued, in order.\<close>

fun probed :: "event list \<Rightarrow> string list" where
  "probed [] = []"
| "probed (Request s q # es) = s # probed es"
| "probed (e # es) = probed es"

section \<open>Concrete sites and worlds\<close>

text \<open>
  \<^verbatim>\<open>str.format\<close> on a template whose only braces are one \<^verbatim>\<open>{}\<close>: the user name is put
  in its place.
\<close>

fun format1 :: "string \<Rightarrow> string \<Rightarrow> string" where
  "format1 [] u = []"
| "format1 (c # cs) u =
     (if is_prefix ''{}'' (c # cs) then u @ drop 1 cs else c # format1 cs u)"

text \<open>\<^verbatim>\<open>str.lower\<close> on strings of ASCII characters.\<close>

definition ascii_lower_char :: "char \<Rightarrow> char" where
  "ascii_lower_char c =
     (case map_of (zip ''ABCDEFGHIJKLMNOPQRSTUVWXYZ'' ''abcdefghijklmnopqrstuvwxyz'') c of
        None \<Rightarrow> c
      | Some l \<Rightarrow> l)"

definition ascii_lower :: "string \<Rightarrow> string" where
  "ascii_lower s = map ascii_lower_char s"

text \<open>
  A world in which every regular expression matches, the extractor returns the given
  items for every body, and every request has the given outcome; its user names are
  ASCII strings.
\<close>

definition world_of :: "(string \<times> string) list \<Rightarrow> outcome \<Rightarrow> world" where
  "world_of ids out =
     \<lparr>re_search = (\<lambda>p u. True), str_format = (\<lambda>t u. Some (format1 t u)),
      str_lower = ascii_lower, socid_extract = (\<lambda>b. ids), net = (\<lambda>u s q. out)\<rparr>"

definition delivered :: "int \<Rightarrow> string \<Rightarrow> outcome" where
  "delivered code body =
     Delivered \<lparr>status_code = code, r_text = body, elapsed = 0, encoded = Some body\<rparr>"

definition plain_config :: config where
  "plain_config =
     \<lparr>tor = False, unique_tor = False, proxy = None, timeout = None, ids_search = False,
      tags = []\<rparr>"

definition plain_site :: "string \<Rightarrow> net_info" where
  "plain_site error_type =
     \<lparr>ni_type = None, ni_tags = None, urlMain = Some ''https://s.example/'',
      url = ''https://s.example/{}'', urlProbe = None, regexCheck = None,
      errorType = error_type, request_head_only = None, errors = None, errorMsg = None,
      headers = None, request_future = None\<rparr>"

text \<open>A site that detects by message and declares one failure annotation.\<close>

definition captcha_site :: net_info where
  "captcha_site =
     (plain_site ''message'')
       \<lparr>errors := Some [(''captcha'', ''Captcha detected'')],
        errorMsg := Some (Msg ''not found'')\<rparr>"

text \<open>A site that declares two failure annotations.\<close>

definition two_annotations_site :: net_info where
  "two_annotations_site =
     (plain_site ''message'')
       \<lparr>errors := Some [(''bbb'', ''B''), (''aaa'', ''A'')],
        errorMsg := Some (Msg ''not found'')\<rparr>"

text \<open>A site for identifiers of kind \<^verbatim>\<open>gaia_id\<close>.\<close>

definition gaia_site :: net_info where
  "gaia_site = (plain_site ''status_code'')\<lparr>ni_type := Some ''gaia_id''\<rparr>"

definition mixed_catalog :: "(string \<times> net_info) list" where
  "mixed_catalog = [(''A'', plain_site ''status_code''), (''G'', gaia_site)]"

definition two_sites :: "(string \<times> net_info) list" where
  "two_sites = [(''S'', captcha_site), (''T'', plain_site ''status_code'')]"

text \<open>A catalog whose first site names a detection strategy that does not exist.\<close>

definition bogus_catalog :: "(string \<times> net_info) list" where
  "bogus_catalog = [(''Bad'', plain_site ''bogus''), (''Good'', plain_site ''status_code'')]"

definition one_site :: "(string \<times> net_info) list" where
  "one_site = [(''A'', plain_site ''status_code'')]"

text \<open>Extracted items: two of interest that carry the same value, and a mixed list.\<close>

definition colliding_items :: "(string \<times> string) list" where
  "colliding_items = [(''username'', ''bob''), (''gaia_id'', ''bob'')]"

definition mixed_items :: "(string \<times> string) list" where
  "mixed_items =
     [(''fullname'', ''Bob B''), (''instagram_username'', ''bob''), (''gaia_id'', ''123'')]"

definition ids_config :: config where
  "ids_config = plain_config\<lparr>ids_search := True\<rparr>"

section \<open>Words of the specification\<close>

text \<open>The description of a transport failure, by its kind.\<close>

definition failure_context :: "request_exception \<Rightarrow> string" where
  "failure_context k =
     (case k of
        HTTPError \<Rightarrow> ''HTTP Error''
      | ProxyError \<Rightarrow> ''Proxy Error''
      | ConnectionError \<Rightarrow> ''Error Connecting''
      | Timeout \<Rightarrow> ''Timeout Error''
      | RequestException \<Rightarrow> ''Unknown Error'')"

text \<open>
  The events of one completed round: the start notification first, the completion report
  last, and neither of the two in between.
\<close>

definition is_round :: "event list \<Rightarrow> bool" where
  "is_round r =
     (case r of
        Start u k # rest \<Rightarrow>
          rest \<noteq> [] \<and> last rest = Finish \<and> Finish \<notin> set (butlast rest)
            \<and> starts rest = []
      | _ \<Rightarrow> False)"





section \<open>Supporting lemmas\<close>

subsection \<open>Evaluation\<close>

lemmas eval_defs = sherlock_def max_workers_def dispatch_site_def skipped_def site_type_def
    site_tags_def regex_rejects_def collect_site_def site_result_def get_response_def
    classify_def mk_result_def extract_ids_def request_method_def request_headers_def
    allow_redirects_def default_headers_def probe_request_def error_found_def response_ok_def
    world_of_def delivered_def plain_config_def plain_site_def captcha_site_def gaia_site_def
    mixed_catalog_def two_sites_def two_annotations_site_def

lemmas main_eval_defs = main_def initial_driver_def initial_usernames_def main_step_def
    ascii_lower_def ascii_lower_char_def bogus_catalog_def one_site_def colliding_items_def mixed_items_def
    ids_config_def new_usernames_of_def new_username_step_def

subsection \<open>Observations\<close>

lemma pool_sizes_append: "pool_sizes (xs @ ys) = pool_sizes xs @ pool_sizes ys"
  by (induction xs rule: pool_sizes.induct) auto

lemma verdicts_append: "verdicts (xs @ ys) = verdicts xs @ verdicts ys"
  by (induction xs rule: verdicts.induct) auto

lemma starts_append: "starts (xs @ ys) = starts xs @ starts ys"
  by (induction xs rule: starts.induct) auto

lemma probed_append: "probed (xs @ ys) = probed xs @ probed ys"
  by (induction xs rule: probed.induct) auto

lemma in_verdicts: "q \<in> set (verdicts ev) \<longleftrightarrow> Update q \<in> set ev"
  by (induction ev rule: verdicts.induct) auto

lemma in_probed: "n \<in> set (probed ev) \<longleftrightarrow> (\<exists>req. Request n req \<in> set ev)"
  by (induction ev rule: probed.induct) auto

lemma probe_events_quiet:
  assumes "\<forall>e \<in> set ev. (\<exists>q. e = Update q) \<or> (\<exists>n r. e = Request n r) \<or> e = ResetIdentity"
  shows "starts ev = []" and "pool_sizes ev = []" and "Finish \<notin> set ev"
  using assms by (induction ev) auto

subsection \<open>The result for one site\<close>

lemma scan_failures_no_match:
  "\<forall>(t, c) \<in> set fe. \<not> str_in t (r_text resp) \<Longrightarrow> scan_failures fe (Some resp) et = Inr et"
  by (induction fe) auto

lemma scan_failures_first_match:
  "find (\<lambda>(t, c). str_in t (r_text resp)) fe = Some (t, c) \<Longrightarrow>
     scan_failures fe (Some resp) et = Inr (Some c)"
  by (induction fe) (auto split: if_splits)

lemma find_some_match:
  "(t, c) \<in> set fe \<Longrightarrow> str_in t body \<Longrightarrow>
     \<exists>t' c'. find (\<lambda>(t, c). str_in t body) fe = Some (t', c') \<and> (t', c') \<in> set fe \<and> str_in t' body"
  by (induction fe) auto

lemma status_code_verdict:
  assumes "errorType net_info = ''status_code''" and "status_code resp \<noteq> 0"
      and "\<forall>(t, c) \<in> set (case errors net_info of None \<Rightarrow> [] | Some fe \<Rightarrow> fe).
             \<not> str_in t (r_text resp)"
  shows "\<exists>q new hs rt.
           site_result w cfg username social_network u net_info (Delivered resp)
             = Inr (q, new, hs, rt)
         \<and> qr_status q = (if status_code resp < 300 then CLAIMED else AVAILABLE)"
  using assms(1,2)
  by (simp add: site_result_def get_response_def scan_failures_no_match[OF assms(3)]
      classify_def mk_result_def split: prod.splits)

lemma transport_failure_without_annotations:
  assumes "(case errors net_info of None \<Rightarrow> [] | Some fe \<Rightarrow> fe) = []"
  shows "site_result w cfg username social_network u net_info (Raised k msg)
           = Inr (mk_result username social_network u UNKNOWN None None (Some (failure_context k)),
                  None, Marker ''?'', [])"
  using assms
  by (cases k) (simp_all add: site_result_def get_response_def classify_def extract_ids_def failure_context_def)

lemma transport_failure_with_annotations:
  assumes "errors net_info = Some (a # fe)"
  shows "site_result w cfg username social_network u net_info (Raised k msg) = Inl AttributeError"
  using assms
  by (cases k; cases a) (simp_all add: site_result_def get_response_def)

subsection \<open>The extracted identifiers\<close>








subsection \<open>The dispatch loop\<close>

lemma dispatch_site_skipped:
  "skipped cfg id_type net_info \<Longrightarrow>
     dispatch_site w cfg username id_type social_network net_info = ([], Inr (net_info, None))"
  by (simp add: dispatch_site_def)

lemma dispatch_site_events:
  "e \<in> set (fst (dispatch_site w cfg username id_type social_network net_info)) \<Longrightarrow>
     (\<exists>q. e = Update q) \<or> (\<exists>n r. e = Request n r) \<or> e = ResetIdentity"
  by (auto simp: dispatch_site_def Let_def split: if_splits option.splits)

lemma dispatch_site_probe:
  assumes "\<not> skipped cfg id_type net_info"
      and "str_format w (url net_info) username = Some u"
      and "\<not> regex_rejects w net_info username"
      and "(case urlProbe net_info of None \<Rightarrow> Some u
            | Some p \<Rightarrow> str_format w p username) = Some url_probe"
  shows "dispatch_site w cfg username id_type social_network net_info =
           (Request social_network (probe_request cfg net_info url_probe)
              # (if unique_tor cfg then [ResetIdentity] else []),
            Inr (net_info\<lparr>request_future :=
                    Some (net w username social_network (probe_request cfg net_info url_probe))\<rparr>,
                 Some \<lparr>url_main = urlMain net_info, url_user = u, status = None,
                       rs_http_status = None, response_text = None, ids_usernames = None\<rparr>))"
  using assms by (simp add: dispatch_site_def Let_def)

lemma dispatch_site_request:
  assumes "Request n req \<in> set (fst (dispatch_site w cfg username id_type social_network net_info))"
  shows "n = social_network" and "\<not> skipped cfg id_type net_info"
    and "\<not> regex_rejects w net_info username"
    and "req_method req = request_method net_info"
    and "\<exists>rs. snd (dispatch_site w cfg username id_type social_network net_info)
            = Inr (net_info\<lparr>request_future := Some (net w username social_network req)\<rparr>, Some rs)
          \<and> status rs = None"
proof -
  show ns: "\<not> skipped cfg id_type net_info"
    using assms by (auto simp: dispatch_site_def)
  obtain u where u: "str_format w (url net_info) username = Some u"
    using assms ns by (cases "str_format w (url net_info) username") (auto simp: dispatch_site_def)
  show nr: "\<not> regex_rejects w net_info username"
    using assms ns u by (auto simp: dispatch_site_def Let_def)
  obtain url_probe where p: "(case urlProbe net_info of None \<Rightarrow> Some u
            | Some p \<Rightarrow> str_format w p username) = Some url_probe"
    using assms ns u nr
    by (cases "case urlProbe net_info of None \<Rightarrow> Some u | Some p \<Rightarrow> str_format w p username")
       (auto simp: dispatch_site_def)
  note eq = dispatch_site_probe[OF ns u nr p, of social_network]
  from assms have r: "n = social_network \<and> req = probe_request cfg net_info url_probe"
    unfolding eq by (auto split: if_splits)
  then show "n = social_network" by simp
  from r show "req_method req = request_method net_info" by (simp add: probe_request_def)
  from r show "\<exists>rs. snd (dispatch_site w cfg username id_type social_network net_info)
            = Inr (net_info\<lparr>request_future := Some (net w username social_network req)\<rparr>, Some rs)
          \<and> status rs = None"
    unfolding eq by simp
qed

lemma dispatch_site_update:
  assumes "Update q \<in> set (fst (dispatch_site w cfg username id_type social_network net_info))"
  shows "qr_site_name q = social_network" and "qr_status q = ILLEGAL"
    and "\<not> skipped cfg id_type net_info" and "regex_rejects w net_info username"
  using assms
  by (auto simp: dispatch_site_def Let_def mk_result_def split: if_splits option.splits)

lemma dispatch_site_entry:
  assumes "snd (dispatch_site w cfg username id_type social_network net_info) = Inr (ni', Some rs)"
  shows "\<not> skipped cfg id_type net_info"
  using assms
  by (auto simp: dispatch_site_def Let_def split: if_splits option.splits)

lemma dispatch_Cons_cases:
  obtains
    (site_raises) ev e where
      "dispatch_site w cfg username id_type name ni = (ev, Inl e)"
      "dispatch w cfg username id_type ((name, ni) # rest) res = (ev, Inl e)"
  | (rest_raises) ev ni' rs ev' e where
      "dispatch_site w cfg username id_type name ni = (ev, Inr (ni', rs))"
      "dispatch w cfg username id_type rest
         (case rs of None \<Rightarrow> res | Some r \<Rightarrow> AList.update name r res) = (ev', Inl e)"
      "dispatch w cfg username id_type ((name, ni) # rest) res = (ev @ ev', Inl e)"
  | (returns) ev ni' rs ev' rest' res' where
      "dispatch_site w cfg username id_type name ni = (ev, Inr (ni', rs))"
      "dispatch w cfg username id_type rest
         (case rs of None \<Rightarrow> res | Some r \<Rightarrow> AList.update name r res) = (ev', Inr (rest', res'))"
      "dispatch w cfg username id_type ((name, ni) # rest) res
         = (ev @ ev', Inr ((name, ni') # rest', res'))"
proof -
  obtain ev r where ds: "dispatch_site w cfg username id_type name ni = (ev, r)"
    by (cases "dispatch_site w cfg username id_type name ni")
  show thesis
  proof (cases r)
    case (Inl e)
    with ds show thesis by (intro site_raises[of ev e]) simp_all
  next
    case (Inr p)
    obtain ni' rs where p: "p = (ni', rs)" by (cases p)
    obtain ev' r' where dr: "dispatch w cfg username id_type rest
         (case rs of None \<Rightarrow> res | Some r \<Rightarrow> AList.update name r res) = (ev', r')"
      by (cases "dispatch w cfg username id_type rest
         (case rs of None \<Rightarrow> res | Some r \<Rightarrow> AList.update name r res)")
    show thesis
    proof (cases r')
      case (Inl e)
      with ds Inr p dr show thesis by (intro rest_raises[of ev ni' rs ev' e]) simp_all
    next
      case (Inr p')
      obtain rest' res' where p': "p' = (rest', res')" by (cases p')
      with ds \<open>r = Inr p\<close> p dr Inr show thesis
        by (intro returns[of ev ni' rs ev' rest' res']) simp_all
    qed
  qed
qed

lemma dispatch_events:
  "e \<in> set (fst (dispatch w cfg username id_type site_data results_total)) \<Longrightarrow>
     (\<exists>q. e = Update q) \<or> (\<exists>n r. e = Request n r) \<or> e = ResetIdentity"
proof (induction site_data arbitrary: results_total)
  case Nil
  then show ?case by simp
next
  case (Cons x site_data)
  obtain name ni where x: "x = (name, ni)" by (cases x)
  show ?case
  proof (cases rule: dispatch_Cons_cases[of w cfg username id_type name ni site_data results_total])
    case (site_raises ev e')
    with Cons.prems dispatch_site_events[of e w cfg username id_type name ni]
    show ?thesis by (simp add: x)
  next
    case (rest_raises ev ni' rs ev' e')
    with Cons.prems dispatch_site_events[of e w cfg username id_type name ni]
      Cons.IH[of "case rs of None \<Rightarrow> results_total | Some r \<Rightarrow> AList.update name r results_total"]
    show ?thesis by (auto simp: x)
  next
    case (returns ev ni' rs ev' rest' res')
    with Cons.prems dispatch_site_events[of e w cfg username id_type name ni]
      Cons.IH[of "case rs of None \<Rightarrow> results_total | Some r \<Rightarrow> AList.update name r results_total"]
    show ?thesis by (auto simp: x)
  qed
qed

lemma dispatch_request:
  "Request n req \<in> set (fst (dispatch w cfg username id_type site_data results_total)) \<Longrightarrow>
     \<exists>ni. (n, ni) \<in> set site_data \<and> \<not> skipped cfg id_type ni \<and> \<not> regex_rejects w ni username
          \<and> req_method req = request_method ni"
proof (induction site_data arbitrary: results_total)
  case Nil
  then show ?case by simp
next
  case (Cons x site_data)
  obtain name ni where x: "x = (name, ni)" by (cases x)
  note here = dispatch_site_request(1-4)[of n req w cfg username id_type name ni]
  show ?case
  proof (cases rule: dispatch_Cons_cases[of w cfg username id_type name ni site_data results_total])
    case (site_raises ev e')
    with Cons.prems here show ?thesis by (auto simp: x)
  next
    case (rest_raises ev ni' rs ev' e')
    with Cons.prems here
      Cons.IH[of "case rs of None \<Rightarrow> results_total | Some r \<Rightarrow> AList.update name r results_total"]
    show ?thesis by (auto simp: x)
  next
    case (returns ev ni' rs ev' rest' res')
    with Cons.prems here
      Cons.IH[of "case rs of None \<Rightarrow> results_total | Some r \<Rightarrow> AList.update name r results_total"]
    show ?thesis by (auto simp: x)
  qed
qed

lemma dispatch_update:
  "Update q \<in> set (fst (dispatch w cfg username id_type site_data results_total)) \<Longrightarrow>
     qr_status q = ILLEGAL \<and>
     (\<exists>ni. (qr_site_name q, ni) \<in> set site_data \<and> \<not> skipped cfg id_type ni
          \<and> regex_rejects w ni username)"
proof (induction site_data arbitrary: results_total)
  case Nil
  then show ?case by simp
next
  case (Cons x site_data)
  obtain name ni where x: "x = (name, ni)" by (cases x)
  note here = dispatch_site_update[of q w cfg username id_type name ni]
  show ?case
  proof (cases rule: dispatch_Cons_cases[of w cfg username id_type name ni site_data results_total])
    case (site_raises ev e')
    with Cons.prems here show ?thesis by (auto simp: x)
  next
    case (rest_raises ev ni' rs ev' e')
    with Cons.prems here
      Cons.IH[of "case rs of None \<Rightarrow> results_total | Some r \<Rightarrow> AList.update name r results_total"]
    show ?thesis by (auto simp: x)
  next
    case (returns ev ni' rs ev' rest' res')
    with Cons.prems here
      Cons.IH[of "case rs of None \<Rightarrow> results_total | Some r \<Rightarrow> AList.update name r results_total"]
    show ?thesis by (auto simp: x)
  qed
qed

lemma update_keys_set: "fst ` set (AList.update k v al) = insert k (fst ` set al)"
  by (induction al) auto

lemma dispatch_keys:
  "snd (dispatch w cfg username id_type site_data results_total) = Inr (sd', res') \<Longrightarrow>
     map fst sd' = map fst site_data \<and>
     fst ` set res' \<subseteq> fst ` set results_total
        \<union> {n. \<exists>ni. (n, ni) \<in> set site_data \<and> \<not> skipped cfg id_type ni}"
proof (induction site_data arbitrary: results_total sd' res')
  case Nil
  then show ?case by simp
next
  case (Cons x site_data)
  obtain name ni where x: "x = (name, ni)" by (cases x)
  show ?case
  proof (cases rule: dispatch_Cons_cases[of w cfg username id_type name ni site_data results_total])
    case (site_raises ev e')
    with Cons.prems show ?thesis by (simp add: x)
  next
    case (rest_raises ev ni' rs ev' e')
    with Cons.prems show ?thesis by (simp add: x)
  next
    case (returns ev ni' rs ev' rest' res'')
    with Cons.prems have eq: "sd' = (name, ni') # rest'" "res' = res''" by (simp_all add: x)
    define res1 where "res1 = (case rs of None \<Rightarrow> results_total
                                | Some r \<Rightarrow> AList.update name r results_total)"
    from Cons.IH[of res1 rest' res''] returns(2)
    have ih: "map fst rest' = map fst site_data"
      "fst ` set res'' \<subseteq> fst ` set res1
          \<union> {n. \<exists>ni. (n, ni) \<in> set site_data \<and> \<not> skipped cfg id_type ni}"
      by (simp_all add: res1_def)
    have k1: "fst ` set res1 \<subseteq> fst ` set results_total \<union> {n. n = name \<and> \<not> skipped cfg id_type ni}"
    proof (cases rs)
      case None
      then show ?thesis by (simp add: res1_def)
    next
      case (Some a)
      with returns(1) have "\<not> skipped cfg id_type ni"
        using dispatch_site_entry[of w cfg username id_type name ni ni' a] by simp
      with Some show ?thesis by (auto simp: res1_def update_keys_set)
    qed
    have "fst ` set res'' \<subseteq> fst ` set results_total
        \<union> {n. \<exists>ni. (n, ni) \<in> set (x # site_data) \<and> \<not> skipped cfg id_type ni}"
    proof
      fix n assume "n \<in> fst ` set res''"
      with ih(2) have "n \<in> fst ` set res1 \<or> (\<exists>ni. (n, ni) \<in> set site_data \<and> \<not> skipped cfg id_type ni)"
        by blast
      with k1 show "n \<in> fst ` set results_total
        \<union> {n. \<exists>ni. (n, ni) \<in> set (x # site_data) \<and> \<not> skipped cfg id_type ni}"
        unfolding x by auto
    qed
    with ih(1) show ?thesis by (simp add: eq x)
  qed
qed

lemma map_of_update_other: "m \<noteq> k \<Longrightarrow> map_of (AList.update k v al) m = map_of al m"
  by (simp add: AList.update_conv')

lemma dispatch_frame:
  "snd (dispatch w cfg username id_type site_data results_total) = Inr (sd', res') \<Longrightarrow>
     n \<notin> fst ` set site_data \<Longrightarrow> map_of res' n = map_of results_total n"
proof (induction site_data arbitrary: results_total sd' res')
  case Nil
  then show ?case by simp
next
  case (Cons x site_data)
  obtain name ni where x: "x = (name, ni)" by (cases x)
  show ?case
  proof (cases rule: dispatch_Cons_cases[of w cfg username id_type name ni site_data results_total])
    case (site_raises ev e')
    with Cons.prems show ?thesis by (simp add: x)
  next
    case (rest_raises ev ni' rs ev' e')
    with Cons.prems show ?thesis by (simp add: x)
  next
    case (returns ev ni' rs ev' rest' res'')
    with Cons.prems have eq: "res' = res''" and ne: "n \<noteq> name" "n \<notin> fst ` set site_data"
      by (auto simp: x)
    from Cons.IH[OF _ ne(2)] returns(2)
    have "map_of res'' n = map_of (case rs of None \<Rightarrow> results_total
                                   | Some r \<Rightarrow> AList.update name r results_total) n"
      by simp
    with ne(1) show ?thesis by (simp add: eq map_of_update_other split: option.splits)
  qed
qed

lemma dispatch_probed_state:
  assumes "snd (dispatch w cfg username id_type site_data results_total) = Inr (sd', res')"
      and "distinct (map fst site_data)"
      and "Request n req \<in> set (fst (dispatch w cfg username id_type site_data results_total))"
  shows "\<exists>ni rs. (n, ni) \<in> set site_data
           \<and> (n, ni\<lparr>request_future := Some (net w username n req)\<rparr>) \<in> set sd'
           \<and> map_of res' n = Some rs \<and> status rs = None"
  using assms
proof (induction site_data arbitrary: results_total sd' res')
  case Nil
  then show ?case by simp
next
  case (Cons x site_data)
  obtain name ni where x: "x = (name, ni)" by (cases x)
  from Cons.prems(2) have d: "name \<notin> fst ` set site_data" "distinct (map fst site_data)"
    by (auto simp: x)
  show ?case
  proof (cases rule: dispatch_Cons_cases[of w cfg username id_type name ni site_data results_total])
    case (site_raises ev e')
    with Cons.prems show ?thesis by (simp add: x)
  next
    case (rest_raises ev ni' rs ev' e')
    with Cons.prems show ?thesis by (simp add: x)
  next
    case (returns ev ni' rs ev' rest' res'')
    define res1 where "res1 = (case rs of None \<Rightarrow> results_total
                                | Some r \<Rightarrow> AList.update name r results_total)"
    from returns Cons.prems(1) have eq: "sd' = (name, ni') # rest'" "res' = res''"
      by (simp_all add: x)
    from returns Cons.prems(3) have "Request n req \<in> set ev \<or> Request n req \<in> set ev'"
      by (simp add: x)
    then show ?thesis
    proof
      assume here: "Request n req \<in> set ev"
      with returns(1) have h: "Request n req \<in> set (fst (dispatch_site w cfg username id_type name ni))"
        by simp
      from dispatch_site_request(1)[OF h] have n: "n = name" .
      from dispatch_site_request(5)[OF h] returns(1) obtain rs' where
        rs': "ni' = ni\<lparr>request_future := Some (net w username name req)\<rparr>" "rs = Some rs'"
          "status rs' = None"
        by auto
      from dispatch_frame[of w cfg username id_type site_data res1 rest' res'' name] returns(2) d(1)
      have "map_of res'' name = map_of res1 name" by (simp add: res1_def)
      with rs' have "map_of res'' name = Some rs'" by (simp add: res1_def AList.update_conv')
      with rs' show ?thesis by (auto simp: n x eq)
    next
      assume "Request n req \<in> set ev'"
      with Cons.IH[of res1 rest' res''] returns(2) d(2)
      show ?thesis by (auto simp: res1_def x eq)
    qed
  qed
qed

subsection \<open>The collection loop\<close>

lemma classify_names:
  "classify username social_network u net_info r error_text ids rt = Inr q \<Longrightarrow>
     qr_site_name q = social_network \<and> qr_username q = username"
  by (auto simp: classify_def mk_result_def split: if_splits sum.splits option.splits)

lemma site_result_names:
  "site_result w cfg username social_network u net_info future = Inr (q, new, hs, rt) \<Longrightarrow>
     qr_site_name q = social_network \<and> qr_username q = username"
  by (auto simp: site_result_def Let_def split: prod.splits sum.splits dest: classify_names)

lemma collect_site_events:
  "e \<in> set (fst (collect_site w cfg username social_network net_info results_total)) \<Longrightarrow>
     \<exists>q. e = Update q \<and> qr_site_name q = social_network
        \<and> social_network \<in> fst ` set results_total"
  by (auto simp: collect_site_def split: option.splits if_splits sum.splits prod.splits
      dest: site_result_names map_of_SomeD intro: rev_image_eqI)

lemma update_keeps_keys: "map_of al k = Some v0 \<Longrightarrow> map fst (AList.update k v al) = map fst al"
  by (induction al) (auto split: if_splits)

lemma collect_site_frame:
  "snd (collect_site w cfg username social_network net_info results_total) = Inr res' \<Longrightarrow>
     map fst res' = map fst results_total \<and>
     (\<forall>m. m \<noteq> social_network \<longrightarrow> map_of res' m = map_of results_total m)"
  by (auto simp: collect_site_def map_of_update_other update_keeps_keys
      split: option.splits if_splits sum.splits prod.splits)

lemma collect_Cons_cases:
  obtains
    (site_raises) ev e where
      "collect_site w cfg username name ni res = (ev, Inl e)"
      "collect w cfg username ((name, ni) # rest) res = (ev, Inl e)"
  | (continues) ev res1 ev' r where
      "collect_site w cfg username name ni res = (ev, Inr res1)"
      "collect w cfg username rest res1 = (ev', r)"
      "collect w cfg username ((name, ni) # rest) res = (ev @ ev', r)"
proof -
  obtain ev r where cs: "collect_site w cfg username name ni res = (ev, r)"
    by (cases "collect_site w cfg username name ni res")
  show thesis
  proof (cases r)
    case (Inl e)
    with cs show thesis by (intro site_raises[of ev e]) simp_all
  next
    case (Inr res1)
    obtain ev' r' where "collect w cfg username rest res1 = (ev', r')"
      by (cases "collect w cfg username rest res1")
    with cs Inr show thesis by (intro continues[of ev res1 ev' r']) simp_all
  qed
qed

lemma collect_frame:
  "snd (collect w cfg username site_data results_total) = Inr res' \<Longrightarrow>
     map fst res' = map fst results_total \<and>
     (\<forall>m. m \<notin> fst ` set site_data \<longrightarrow> map_of res' m = map_of results_total m)"
proof (induction site_data arbitrary: results_total)
  case Nil
  then show ?case by simp
next
  case (Cons x site_data)
  obtain name ni where x: "x = (name, ni)" by (cases x)
  show ?case
  proof (cases rule: collect_Cons_cases[of w cfg username name ni results_total site_data])
    case (site_raises ev e)
    with Cons.prems show ?thesis by (simp add: x)
  next
    case (continues ev res1 ev' r)
    with Cons.prems have r: "r = Inr res'" by (simp add: x)
    from collect_site_frame[of w cfg username name ni results_total res1] continues(1)
    have f1: "map fst res1 = map fst results_total"
      "\<And>m. m \<noteq> name \<Longrightarrow> map_of res1 m = map_of results_total m" by simp_all
    from Cons.IH[of res1] continues(2) r
    have f2: "map fst res' = map fst res1"
      "\<And>m. m \<notin> fst ` set site_data \<Longrightarrow> map_of res' m = map_of res1 m" by simp_all
    show ?thesis using f1 f2 by (simp add: x)
  qed
qed

lemma collect_events:
  "e \<in> set (fst (collect w cfg username site_data results_total)) \<Longrightarrow>
     \<exists>q. e = Update q \<and> qr_site_name q \<in> fst ` set site_data
        \<and> qr_site_name q \<in> fst ` set results_total"
proof (induction site_data arbitrary: results_total)
  case Nil
  then show ?case by simp
next
  case (Cons x site_data)
  obtain name ni where x: "x = (name, ni)" by (cases x)
  note here = collect_site_events[of e w cfg username name ni results_total]
  show ?case
  proof (cases rule: collect_Cons_cases[of w cfg username name ni results_total site_data])
    case (site_raises ev e')
    with Cons.prems here show ?thesis by (auto simp: x)
  next
    case (continues ev res1 ev' r)
    from collect_site_frame[of w cfg username name ni results_total res1] continues(1)
    have keys: "fst ` set res1 = fst ` set results_total"
      by (metis list.set_map snd_conv)
    from Cons.prems continues have "e \<in> set ev \<or> e \<in> set ev'" by (simp add: x)
    then show ?thesis
    proof
      assume "e \<in> set ev"
      with here continues(1) show ?thesis by (auto simp: x)
    next
      assume "e \<in> set ev'"
      with Cons.IH[of res1] continues(2) keys show ?thesis by (auto simp: x)
    qed
  qed
qed

lemma collect_append:
  "collect w cfg username (xs @ ys) res =
     (case collect w cfg username xs res of
        (ev, Inl e) \<Rightarrow> (ev, Inl e)
      | (ev, Inr res1) \<Rightarrow>
          (case collect w cfg username ys res1 of (ev', r) \<Rightarrow> (ev @ ev', r)))"
proof (induction xs arbitrary: res)
  case Nil
  then show ?case by (simp split: prod.splits)
next
  case (Cons x xs)
  obtain name ni where x: "x = (name, ni)" by (cases x)
  show ?case
    by (simp add: x Cons.IH split: prod.splits sum.splits)
qed

subsection \<open>One round\<close>

lemma sherlock_events_cases:
  obtains
    (pool) "site_data = []"
      "sherlock w cfg username id_type site_data = ([Start username id_type], Inl PoolError)"
  | (dispatch_raises) ev1 e where "site_data \<noteq> []"
      "dispatch w cfg username id_type site_data [] = (ev1, Inl e)"
      "sherlock w cfg username id_type site_data =
         ([Start username id_type,
           NewSession (tor cfg \<or> unique_tor cfg) (min 20 (length site_data))] @ ev1, Inl e)"
  | (collect_raises) ev1 sd' res ev2 e where "site_data \<noteq> []"
      "dispatch w cfg username id_type site_data [] = (ev1, Inr (sd', res))"
      "collect w cfg username sd' res = (ev2, Inl e)"
      "sherlock w cfg username id_type site_data =
         ([Start username id_type,
           NewSession (tor cfg \<or> unique_tor cfg) (min 20 (length site_data))] @ ev1 @ ev2, Inl e)"
  | (returns) ev1 sd' res ev2 res' where "site_data \<noteq> []"
      "dispatch w cfg username id_type site_data [] = (ev1, Inr (sd', res))"
      "collect w cfg username sd' res = (ev2, Inr res')"
      "sherlock w cfg username id_type site_data =
         ([Start username id_type,
           NewSession (tor cfg \<or> unique_tor cfg) (min 20 (length site_data))] @ ev1 @ ev2 @ [Finish],
          Inr (sd', res'))"
proof (cases "site_data = []")
  case True
  then show thesis by (intro pool) (simp_all add: sherlock_def max_workers_def)
next
  case False
  then have mw: "max_workers site_data = min 20 (length site_data)" "max_workers site_data \<noteq> 0"
    by (auto simp: max_workers_def)
  obtain ev1 r1 where d: "dispatch w cfg username id_type site_data [] = (ev1, r1)"
    by (cases "dispatch w cfg username id_type site_data []")
  show thesis
  proof (cases r1)
    case (Inl e)
    with False d mw show thesis
      by (intro dispatch_raises[of ev1 e]) (simp_all add: sherlock_def)
  next
    case (Inr p)
    obtain sd' res where p: "p = (sd', res)" by (cases p)
    obtain ev2 r2 where c: "collect w cfg username sd' res = (ev2, r2)"
      by (cases "collect w cfg username sd' res")
    show thesis
    proof (cases r2)
      case (Inl e)
      with False d mw Inr p c show thesis
        by (intro collect_raises[of ev1 sd' res ev2 e]) (simp_all add: sherlock_def)
    next
      case r2: (Inr res')
      with False d mw Inr p c show thesis
        by (intro returns[of ev1 sd' res ev2 res']) (simp_all add: sherlock_def)
    qed
  qed
qed

lemma sherlock_request:
  assumes "Request n req \<in> set (fst (sherlock w cfg username id_type site_data))"
  shows "Request n req \<in> set (fst (dispatch w cfg username id_type site_data []))"
proof (cases rule: sherlock_events_cases[of site_data w cfg username id_type])
  case pool
  with assms show ?thesis by simp
next
  case (dispatch_raises ev1 e)
  with assms show ?thesis by simp
next
  case (collect_raises ev1 sd' res ev2 e)
  with assms collect_events[of "Request n req" w cfg username sd' res]
  show ?thesis by auto
next
  case (returns ev1 sd' res ev2 res')
  with assms collect_events[of "Request n req" w cfg username sd' res]
  show ?thesis by auto
qed

lemma sherlock_update:
  assumes "Update q \<in> set (fst (sherlock w cfg username id_type site_data))"
  shows "Update q \<in> set (fst (dispatch w cfg username id_type site_data []))
       \<or> (\<exists>sd' res. snd (dispatch w cfg username id_type site_data []) = Inr (sd', res)
             \<and> Update q \<in> set (fst (collect w cfg username sd' res)))"
proof (cases rule: sherlock_events_cases[of site_data w cfg username id_type])
  case pool
  with assms show ?thesis by simp
next
  case (dispatch_raises ev1 e)
  with assms show ?thesis by simp
next
  case (collect_raises ev1 sd' res ev2 e)
  with assms show ?thesis by auto
next
  case (returns ev1 sd' res ev2 res')
  with assms show ?thesis by auto
qed

lemma sherlock_results:
  assumes "snd (sherlock w cfg username id_type site_data) = Inr (sd', res')"
  shows "\<exists>res. snd (dispatch w cfg username id_type site_data []) = Inr (sd', res)
             \<and> snd (collect w cfg username sd' res) = Inr res'"
proof (cases rule: sherlock_events_cases[of site_data w cfg username id_type])
  case pool
  with assms show ?thesis by simp
next
  case (dispatch_raises ev1 e)
  with assms show ?thesis by simp
next
  case (collect_raises ev1 sd' res ev2 e)
  with assms show ?thesis by auto
next
  case (returns ev1 sd'' res ev2 res'')
  with assms show ?thesis by auto
qed

lemma site_result_unknown_strategy:
  assumes "errorType ni \<notin> {''message'', ''status_code'', ''response_url''}"
      and "status_code resp \<noteq> 0"
      and "\<forall>(t, c) \<in> set (case errors ni of None \<Rightarrow> [] | Some fe \<Rightarrow> fe).
             \<not> str_in t (r_text resp)"
  shows "site_result w cfg username name u ni (Delivered resp)
           = Inl (ValueError (errorType ni) name)"
  using assms(1,2)
  by (simp add: site_result_def get_response_def scan_failures_no_match[OF assms(3)]
      classify_def split: prod.splits)

lemma collect_stops_at:
  assumes "map_of res name = Some rs" and "status rs = None"
      and "request_future ni' = Some future"
      and "site_result w cfg username name (url_user rs) ni' future = Inl e0"
      and "name \<notin> fst ` set pre'"
  shows "collect w cfg username (pre' @ (name, ni') # post') res
           = (fst (collect w cfg username pre' res),
              Inl (case snd (collect w cfg username pre' res) of Inl e \<Rightarrow> e | Inr r \<Rightarrow> e0))"
proof -
  obtain evp r where c: "collect w cfg username pre' res = (evp, r)"
    by (cases "collect w cfg username pre' res")
  show ?thesis
  proof (cases r)
    case (Inl e)
    with c show ?thesis by (simp add: collect_append)
  next
    case (Inr r1)
    from collect_frame[of w cfg username pre' res r1] c Inr assms(5)
    have "map_of r1 name = map_of res name" by simp
    with assms have "collect_site w cfg username name ni' r1 = ([], Inl e0)"
      by (simp add: collect_site_def)
    with c Inr show ?thesis by (simp add: collect_append)
  qed
qed

lemma collect_after_probe_of_unknown_strategy:
  assumes "distinct (map fst site_data)" and "site_data = pre @ (name, ni) # post"
      and "snd (dispatch w cfg username id_type site_data []) = Inr (sd', res)"
      and "Request name req \<in> set (fst (dispatch w cfg username id_type site_data []))"
      and "net w username name req = Delivered resp" and "status_code resp \<noteq> 0"
      and "\<forall>(t, c) \<in> set (case errors ni of None \<Rightarrow> [] | Some fe \<Rightarrow> fe).
             \<not> str_in t (r_text resp)"
      and "errorType ni \<notin> {''message'', ''status_code'', ''response_url''}"
  shows "\<exists>e ev2. collect w cfg username sd' res = (ev2, Inl e)
           \<and> (\<forall>q. Update q \<in> set ev2 \<longrightarrow> qr_site_name q \<in> fst ` set pre)"
proof -
  define ni' where "ni' = ni\<lparr>request_future := Some (Delivered resp)\<rparr>"
  have mem: "(name, ni) \<in> set site_data" using assms(2) by simp
  from dispatch_probed_state[OF assms(3,1,4)] obtain ni1 rs where
    p: "(name, ni1) \<in> set site_data"
       "(name, ni1\<lparr>request_future := Some (net w username name req)\<rparr>) \<in> set sd'"
       "map_of res name = Some rs" "status rs = None"
    by blast
  from p(1) mem assms(1) have "ni1 = ni" using eq_key_imp_eq_value by metis
  with p(2) assms(5) have in': "(name, ni') \<in> set sd'" by (simp add: ni'_def)
  from dispatch_keys[OF assms(3)] have keys: "map fst sd' = map fst site_data" by simp
  then have dist': "distinct (map fst sd')" using assms(1) by simp
  from keys have len: "length sd' = length site_data" by (metis length_map)
  define pre' where "pre' = take (length pre) sd'"
  define post' where "post' = drop (Suc (length pre)) sd'"
  from len assms(2) have lt: "length pre < length sd'" by simp
  have split: "sd' = pre' @ sd' ! length pre # post'"
    unfolding pre'_def post'_def by (rule id_take_nth_drop[OF lt])
  have "fst (sd' ! length pre) = map fst sd' ! length pre" using lt by simp
  also have "\<dots> = name" by (simp add: keys assms(2) nth_append)
  finally have "fst (sd' ! length pre) = name" .
  then obtain x where x: "sd' ! length pre = (name, x)" by (cases "sd' ! length pre") simp
  with lt have "(name, x) \<in> set sd'" by (metis nth_mem)
  with in' dist' have "x = ni'" using eq_key_imp_eq_value by metis
  with split x have sd': "sd' = pre' @ (name, ni') # post'" by simp
  have kp: "map fst pre' = map fst pre"
    by (simp add: pre'_def take_map[symmetric] keys assms(2))
  then have sp: "fst ` set pre' = fst ` set pre" by (metis list.set_map)
  from assms(1,2) have "name \<notin> fst ` set pre" by auto
  with sp have np: "name \<notin> fst ` set pre'" by simp
  have "site_result w cfg username name (url_user rs) ni' (Delivered resp)
          = Inl (ValueError (errorType ni') name)"
    by (rule site_result_unknown_strategy) (use assms(6,7,8) in \<open>simp_all add: ni'_def\<close>)
  from collect_stops_at[OF p(3,4) _ this np, of post'] 
  have c: "collect w cfg username sd' res
           = (fst (collect w cfg username pre' res),
              Inl (case snd (collect w cfg username pre' res) of
                     Inl e \<Rightarrow> e | Inr r \<Rightarrow> ValueError (errorType ni') name))"
    by (simp add: sd' ni'_def)
  have "qr_site_name q \<in> fst ` set pre"
    if "Update q \<in> set (fst (collect w cfg username pre' res))" for q
    using collect_events[OF that] sp by auto
  with c show ?thesis by blast
qed

subsection \<open>The loop of the driver\<close>

lemma probe_events_no_finish:
  assumes "\<And>e. e \<in> set ev \<Longrightarrow> (\<exists>q. e = Update q) \<or> (\<exists>n r. e = Request n r) \<or> e = ResetIdentity"
  shows "starts ev = []" and "count_list ev Finish = 0"
proof -
  from assms have a: "\<forall>e \<in> set ev. (\<exists>q. e = Update q) \<or> (\<exists>n r. e = Request n r) \<or> e = ResetIdentity"
    by blast
  from probe_events_quiet(1)[OF a] show "starts ev = []" .
  from probe_events_quiet(3)[OF a] show "count_list ev Finish = 0" by (simp add: count_list_0_iff)
qed

lemma sherlock_starts_and_finishes:
  "starts (fst (sherlock w cfg username id_type site_data)) = [username]
   \<and> count_list (fst (sherlock w cfg username id_type site_data)) Finish
       = (case snd (sherlock w cfg username id_type site_data) of Inl e \<Rightarrow> 0 | Inr r \<Rightarrow> 1)"
proof -
  have d: "starts (fst (dispatch w cfg username id_type site_data res)) = []"
          "count_list (fst (dispatch w cfg username id_type site_data res)) Finish = 0" for res
    by (rule probe_events_no_finish, rule dispatch_events, assumption)+
  have c: "starts (fst (collect w cfg username sd res)) = []"
          "count_list (fst (collect w cfg username sd res)) Finish = 0" for sd res
    by (rule probe_events_no_finish, use collect_events in blast)+
  show ?thesis
  proof (cases rule: sherlock_events_cases[of site_data w cfg username id_type])
    case pool
    then show ?thesis by simp
  next
    case (dispatch_raises ev1 e)
    with d[of "[]"] show ?thesis by (simp add: starts_append)
  next
    case (collect_raises ev1 sd' res ev2 e)
    with d[of "[]"] c[of sd' res] show ?thesis by (simp add: starts_append)
  next
    case (returns ev1 sd' res ev2 res')
    with d[of "[]"] c[of sd' res] show ?thesis by (simp add: starts_append)
  qed
qed

lemma fold_update_keys:
  "fst ` set q \<subseteq> fst ` set (fold (\<lambda>(u, utype). AList.update u utype) new q)"
proof (induction new arbitrary: q)
  case Nil
  then show ?case by simp
next
  case (Cons x new)
  obtain u k where x: "x = (u, k)" by (cases x)
  have "fst ` set q \<subseteq> fst ` set (AList.update u k q)" by (auto simp: update_keys_set)
  also have "\<dots> \<subseteq> fst ` set (fold (\<lambda>(u, utype). AList.update u utype) new (AList.update u k q))"
    by (rule Cons.IH)
  finally show ?case by (simp add: x)
qed

lemma harvest_keys:
  "harvest results usernames = Inr usernames' \<Longrightarrow> fst ` set usernames \<subseteq> fst ` set usernames'"
proof (induction results arbitrary: usernames)
  case Nil
  then show ?case by simp
next
  case (Cons x results)
  obtain website_name dictionary where x: "x = (website_name, dictionary)" by (cases x)
  define usernames1 where "usernames1 =
            (case ids_usernames dictionary of
               None \<Rightarrow> usernames
             | Some new_usernames \<Rightarrow>
                 fold (\<lambda>(u, utype). AList.update u utype) new_usernames usernames)"
  have k: "fst ` set usernames \<subseteq> fst ` set usernames1"
  proof (cases "ids_usernames dictionary")
    case None
    then show ?thesis by (simp add: usernames1_def)
  next
    case (Some new_usernames)
    with fold_update_keys[of usernames new_usernames] show ?thesis
      by (simp add: usernames1_def)
  qed
  from Cons.prems have "harvest results usernames1 = Inr usernames'"
    by (auto simp: x usernames1_def Let_def split: option.splits)
  from Cons.IH[OF this] k show ?case by blast
qed

text \<open>A pop of an identifier whose lower-case form was seen: nothing but the pop happens.\<close>

lemma main_step_seen:
  "str_lower w username \<in> d_already_checked d \<Longrightarrow>
     main_step w cfg username id_type d
       = (None, d\<lparr>d_usernames := AList.delete username (d_usernames d)\<rparr>)"
  by (simp add: main_step_def)

lemma main_step_new:
  assumes "str_lower w username \<notin> d_already_checked d"
      and "main_step w cfg username id_type d = (r, d')"
  shows "starts (d_events d') = starts (d_events d) @ [username]"
    and "d_already_checked d' = insert (str_lower w username) (d_already_checked d)"
    and "count_list (d_events d') Finish \<le> count_list (d_events d) Finish + 1"
    and "r = None \<Longrightarrow> count_list (d_events d') Finish = count_list (d_events d) Finish + 1"
    and "r = None \<Longrightarrow> fst ` set (d_usernames d) - {username} \<subseteq> fst ` set (d_usernames d')"
proof -
  obtain ev res where s: "sherlock w cfg username id_type (d_site_data d) = (ev, res)"
    by (cases "sherlock w cfg username id_type (d_site_data d)")
  from sherlock_starts_and_finishes[of w cfg username id_type "d_site_data d"] s
  have sf: "starts ev = [username]"
    "count_list ev Finish = (case res of Inl e \<Rightarrow> 0 | Inr r \<Rightarrow> 1)" by simp_all
  have dk: "fst ` set (d_usernames d) - {username} \<subseteq> fst ` set (AList.delete username (d_usernames d))"
    by (auto simp: AList.delete_eq)
  show "starts (d_events d') = starts (d_events d) @ [username]"
    using assms s sf(1)
    by (auto simp: main_step_def Let_def starts_append split: sum.splits prod.splits)
  show "d_already_checked d' = insert (str_lower w username) (d_already_checked d)"
    using assms s
    by (auto simp: main_step_def Let_def split: sum.splits prod.splits)
  show "count_list (d_events d') Finish \<le> count_list (d_events d) Finish + 1"
    using assms s sf(2)
    by (auto simp: main_step_def Let_def split: sum.splits prod.splits)
  show "count_list (d_events d') Finish = count_list (d_events d) Finish + 1" if "r = None"
    using assms s sf(2) that
    by (auto simp: main_step_def Let_def split: sum.splits prod.splits)
  show "fst ` set (d_usernames d) - {username} \<subseteq> fst ` set (d_usernames d')" if "r = None"
  proof -
    from assms s that obtain sd' results usernames' where
      h: "harvest results (AList.delete username (d_usernames d)) = Inr usernames'"
         "d_usernames d' = usernames'"
      by (auto simp: main_step_def Let_def split: sum.splits prod.splits)
    from harvest_keys[OF h(1)] dk h(2) show ?thesis by blast
  qed
qed



lemma main_step_counts:
  assumes "main_step w cfg username id_type d = (r, d')"
      and "str_lower w username \<notin> d_already_checked d"
  shows "length (starts (d_events d')) = length (starts (d_events d)) + 1"
    and "count_list (d_events d') Finish \<le> count_list (d_events d) Finish + 1"
    and "r = None \<Longrightarrow> count_list (d_events d') Finish = count_list (d_events d) Finish + 1"
  using main_step_new(1,3,4)[OF assms(2,1)] by simp_all

lemma main_loop_counts:
  assumes "main_loop n w cfg d = (e, d')"
      and "count_list (d_events d) Finish = length (starts (d_events d))"
  shows "count_list (d_events d') Finish \<le> length (starts (d_events d'))
       \<and> ((\<forall>err. e \<noteq> Aborted err)
            \<longrightarrow> count_list (d_events d') Finish = length (starts (d_events d')))"
  using assms
proof (induction n arbitrary: d)
  case 0
  then show ?case by (auto split: if_splits)
next
  case (Suc n)
  show ?case
  proof (cases "d_usernames d")
    case Nil
    with Suc.prems show ?thesis by auto
  next
    case (Cons x rest)
    obtain username id_type where x: "x = (username, id_type)" by (cases x)
    obtain r d1 where st: "main_step w cfg username id_type d = (r, d1)"
      by (cases "main_step w cfg username id_type d")
    show ?thesis
    proof (cases "str_lower w username \<in> d_already_checked d")
      case True
      with st have "r = None" "d_events d1 = d_events d" by (auto simp: main_step_seen)
      with Suc.prems Cons x st Suc.IH[of d1] show ?thesis by simp
    next
      case False
      note c = main_step_counts[OF st False]
      show ?thesis
      proof (cases r)
        case (Some err)
        with Suc.prems(1) Cons x st have "e = Aborted err" "d' = d1" by simp_all
        with c(1,2) Suc.prems(2) show ?thesis by simp
      next
        case None
        with Suc.prems(1) Cons x st have ml: "main_loop n w cfg d1 = (e, d')" by simp
        from c(1) c(3)[OF None] Suc.prems(2)
        have "count_list (d_events d1) Finish = length (starts (d_events d1))" by simp
        from Suc.IH[OF ml this] show ?thesis .
      qed
    qed
  qed
qed




lemma sherlock_round:
  "(case snd (sherlock w cfg username id_type site_data) of
      Inr r \<Rightarrow>
        (\<exists>ev. fst (sherlock w cfg username id_type site_data)
                = Start username id_type # ev @ [Finish]
              \<and> Finish \<notin> set ev \<and> starts ev = [])
    | Inl e \<Rightarrow> Finish \<notin> set (fst (sherlock w cfg username id_type site_data)))"
proof -
  have quiet: "Finish \<notin> set ev \<and> starts ev = []"
    if "\<And>e. e \<in> set ev \<Longrightarrow> (\<exists>q. e = Update q) \<or> (\<exists>n r. e = Request n r) \<or> e = ResetIdentity"
    for ev using probe_events_quiet(1,3)[of ev] that by blast
  have d: "Finish \<notin> set (fst (dispatch w cfg username id_type site_data res))
           \<and> starts (fst (dispatch w cfg username id_type site_data res)) = []" for res
    by (rule quiet) (rule dispatch_events)
  have c: "Finish \<notin> set (fst (collect w cfg username sd res))
           \<and> starts (fst (collect w cfg username sd res)) = []" for sd res
    by (rule quiet) (use collect_events in blast)
  show ?thesis
  proof (cases rule: sherlock_events_cases[of site_data w cfg username id_type])
    case pool
    then show ?thesis by simp
  next
    case (dispatch_raises ev1 e)
    with d[of "[]"] show ?thesis by simp
  next
    case (collect_raises ev1 sd' res ev2 e)
    with d[of "[]"] c[of sd' res] show ?thesis by simp
  next
    case (returns ev1 sd' res ev2 res')
    let ?ev = "NewSession (tor cfg \<or> unique_tor cfg) (min 20 (length site_data)) # ev1 @ ev2"
    from returns d[of "[]"] c[of sd' res]
    have "fst (sherlock w cfg username id_type site_data) = Start username id_type # ?ev @ [Finish]"
      "Finish \<notin> set ?ev" "starts ?ev = []"
      by (simp_all add: starts_append)
    with returns(4) show ?thesis by auto
  qed
qed

lemma is_round_iff:
  "is_round r \<longleftrightarrow> (\<exists>u k ev. r = Start u k # ev @ [Finish] \<and> Finish \<notin> set ev \<and> starts ev = [])"
proof
  assume "is_round r"
  then obtain u k rest where r: "r = Start u k # rest" "rest \<noteq> []" "last rest = Finish"
    "Finish \<notin> set (butlast rest)" "starts rest = []"
    by (auto simp: is_round_def split: list.splits event.splits)
  from r(2,3) have rest: "rest = butlast rest @ [Finish]" by (metis append_butlast_last_id)
  with r(5) have "starts (butlast rest) = []"
    by (metis append_is_Nil_conv starts_append)
  with r(1,4) rest show "\<exists>u k ev. r = Start u k # ev @ [Finish] \<and> Finish \<notin> set ev \<and> starts ev = []"
    by metis
next
  assume "\<exists>u k ev. r = Start u k # ev @ [Finish] \<and> Finish \<notin> set ev \<and> starts ev = []"
  then show "is_round r" by (auto simp: is_round_def starts_append)
qed

lemma is_round_counts: "is_round r \<Longrightarrow> count_list r Finish = 1 \<and> length (starts r) = 1"
  by (auto simp: is_round_iff starts_append count_list_0_iff)

lemma rounds_counts:
  "list_all is_round rounds \<Longrightarrow>
     count_list (concat rounds) Finish = length rounds
     \<and> length (starts (concat rounds)) = length rounds"
  by (induction rounds) (auto simp: starts_append dest: is_round_counts)

lemma main_step_rounds:
  assumes "main_step w cfg username id_type d = (None, d')"
      and "d_events d = concat rounds" and "list_all is_round rounds"
  shows "\<exists>rounds'. d_events d' = concat rounds' \<and> list_all is_round rounds'"
proof (cases "str_lower w username \<in> d_already_checked d")
  case True
  with assms show ?thesis by (auto simp: main_step_seen)
next
  case False
  obtain ev res where s: "sherlock w cfg username id_type (d_site_data d) = (ev, res)"
    by (cases "sherlock w cfg username id_type (d_site_data d)")
  from assms(1) False s obtain p where res: "res = Inr p" and ev: "d_events d' = d_events d @ ev"
    by (auto simp: main_step_def Let_def split: sum.splits prod.splits)
  from sherlock_round[of w cfg username id_type "d_site_data d"] s res
  have "is_round ev" by (auto simp: is_round_iff)
  with assms(2,3) ev have "d_events d' = concat (rounds @ [ev])" "list_all is_round (rounds @ [ev])"
    by simp_all
  then show ?thesis by blast
qed

lemma main_loop_rounds:
  assumes "main_loop n w cfg d = (e, d')"
      and "d_events d = concat rounds" and "list_all is_round rounds"
      and "\<forall>err. e \<noteq> Aborted err"
  shows "\<exists>rounds'. d_events d' = concat rounds' \<and> list_all is_round rounds'"
  using assms
proof (induction n arbitrary: d rounds)
  case 0
  then show ?case by (auto split: if_splits)
next
  case (Suc n)
  show ?case
  proof (cases "d_usernames d")
    case Nil
    with Suc.prems show ?thesis by auto
  next
    case (Cons x rest)
    obtain username id_type where x: "x = (username, id_type)" by (cases x)
    obtain r d1 where st: "main_step w cfg username id_type d = (r, d1)"
      by (cases "main_step w cfg username id_type d")
    show ?thesis
    proof (cases r)
      case (Some err)
      with Suc.prems(1) Cons x st have "e = Aborted err" by simp
      with Suc.prems(4) show ?thesis by simp
    next
      case None
      with Suc.prems(1) Cons x st have ml: "main_loop n w cfg d1 = (e, d')" by simp
      from main_step_rounds[OF _ Suc.prems(2,3)] st None obtain rounds1 where
        "d_events d1 = concat rounds1" "list_all is_round rounds1" by blast
      from Suc.IH[OF ml this Suc.prems(4)] show ?thesis .
    qed
  qed
qed


lemma take_append_mem: "x \<in> set (take n xs) \<Longrightarrow> x \<in> set (take n (xs @ ys))"
  by simp









subsection \<open>What a round discovers and what the driver queues\<close>















section \<open>The claims\<close>

subsection \<open>Classification of one response\<close>

text \<open>
  C1. For a site that detects by status code, a delivered response whose body matches no
  failure annotation is to be classified Claimed exactly for the status codes from 200 to
  299 and Available for every other one, the codes below 200 among them. The code
  classifies a response with status code 101 as Claimed: the test it evaluates is
  \<^verbatim>\<open>(not status >= 300) or status < 200\<close>, which holds for every code below 300.
\<close>

theorem status_101_is_claimed:
  "map qr_status
     (verdicts (fst (sherlock (world_of [] (delivered 101 [])) plain_config ''alice''
                       ''username'' [(''S'', plain_site ''status_code'')])))
     = [CLAIMED]"
  by (simp add: eval_defs)

text \<open>
  C2. A probe whose transport fails is to give one verdict Unknown whose context names
  the failure, whatever the detection strategy and whether or not the site declares
  failure annotations, and never to abort the batch. For the site \<open>S\<close>, which declares
  a failure annotation, a timeout makes the loop over the annotations read the text of a
  response that does not exist: the round raises AttributeError, the run is aborted, and
  no verdict is emitted, neither for \<open>S\<close> nor for the site \<open>T\<close> after it.
\<close>

theorem timeout_with_annotations_raises:
  "fst (main 3 (world_of [] (Raised Timeout ''timed out'')) plain_config two_sites [''alice''])
     = Aborted AttributeError
   \<and> verdicts (d_events (snd (main 3 (world_of [] (Raised Timeout ''timed out''))
                                   plain_config two_sites [''alice'']))) = []"
  by (simp add: eval_defs main_def initial_driver_def initial_usernames_def main_step_def
      ascii_lower_def ascii_lower_char_def numeral_3_eq_3)

text \<open>
  C6. When the body of a delivered response contains a text that the site declares as a
  failure annotation, the context of the Unknown verdict is to be that annotation's
  comment. The site \<open>two_annotations_site\<close> declares \<^verbatim>\<open>bbb\<close> with the comment \<^verbatim>\<open>B\<close>
  before \<^verbatim>\<open>aaa\<close> with the comment \<^verbatim>\<open>A\<close>; the body \<^verbatim>\<open>aaa bbb\<close> contains \<^verbatim>\<open>aaa\<close>, and
  the context of the verdict is \<^verbatim>\<open>B\<close>, not \<^verbatim>\<open>A\<close>.
\<close>

theorem first_annotation_text_wins:
  "errors two_annotations_site = Some [(''bbb'', ''B''), (''aaa'', ''A'')]
   \<and> str_in ''aaa'' ''aaa bbb''
   \<and> map qr_status
        (verdicts (fst (sherlock (world_of [] (delivered 200 ''aaa bbb'')) plain_config
                          ''alice'' ''username'' [(''S'', two_annotations_site)])))
       = [UNKNOWN]
   \<and> map qr_context
        (verdicts (fst (sherlock (world_of [] (delivered 200 ''aaa bbb'')) plain_config
                          ''alice'' ''username'' [(''S'', two_annotations_site)])))
       = [Some ''B'']"
  by (simp add: eval_defs)

text \<open>
  C6, as the code has it. For every site and every delivered response whose body contains
  a text that the site declares as a failure annotation, the result is Unknown, whatever
  the detection strategy, and its context is the comment of the first declared
  annotation, in the order of the dictionary, whose text occurs in the body. It is the
  comment of the annotation at hand whenever every annotation whose text occurs in the
  body carries that comment, as when it is the only one that occurs.
\<close>

theorem failure_annotation_gives_unknown:
  assumes "errors net_info = Some failure_errors"
      and "(t, c) \<in> set failure_errors" and "str_in t (r_text resp)"
  shows "\<exists>q new hs rt t' comment.
           site_result w cfg username social_network u net_info (Delivered resp)
             = Inr (q, new, hs, rt)
         \<and> qr_status q = UNKNOWN \<and> qr_context q = Some comment
         \<and> qr_username q = username \<and> qr_site_name q = social_network
         \<and> find (\<lambda>(t, c). str_in t (r_text resp)) failure_errors = Some (t', comment)
         \<and> (t', comment) \<in> set failure_errors \<and> str_in t' (r_text resp)
         \<and> ((\<forall>(t2, c2) \<in> set failure_errors. str_in t2 (r_text resp) \<longrightarrow> c2 = c)
              \<longrightarrow> comment = c)"
proof -
  from find_some_match[OF assms(2,3)] obtain t' c'
    where f: "find (\<lambda>(t, c). str_in t (r_text resp)) failure_errors = Some (t', c')"
      and m: "(t', c') \<in> set failure_errors" "str_in t' (r_text resp)"
    by blast
  have s: "scan_failures failure_errors (Some resp) et = Inr (Some c')" for et
    using f by (rule scan_failures_first_match)
  have only: "(\<forall>(t2, c2) \<in> set failure_errors. str_in t2 (r_text resp) \<longrightarrow> c2 = c)
              \<longrightarrow> c' = c"
    using m by blast
  have r: "site_result w cfg username social_network u net_info (Delivered resp)
             = Inr (mk_result username social_network u UNKNOWN
                      (fst (extract_ids w (ids_search cfg) (Some resp)))
                      (Some (elapsed resp)) (Some c'),
                    snd (extract_ids w (ids_search cfg) (Some resp)),
                    Code (status_code resp),
                    (case encoded resp of None \<Rightarrow> [] | Some b \<Rightarrow> b))"
    by (simp add: site_result_def get_response_def assms(1) s classify_def
        split: prod.splits)
  show ?thesis
    unfolding r using f m only by (simp add: mk_result_def)
qed

theorem failure_annotation_gives_unknown_witness:
  "errors captcha_site = Some [(''captcha'', ''Captcha detected'')]
   \<and> str_in ''captcha'' ''captcha: user not found''
   \<and> (\<exists>q new hs rt.
         site_result (world_of [] (delivered 200 ''captcha: user not found'')) plain_config
           ''alice'' ''S'' ''https://s.example/alice'' captcha_site
           (delivered 200 ''captcha: user not found'') = Inr (q, new, hs, rt)
         \<and> qr_status q = UNKNOWN \<and> qr_context q = Some ''Captcha detected'')"
proof -
  have h1: "errors captcha_site = Some [(''captcha'', ''Captcha detected'')]"
    by (simp add: captcha_site_def plain_site_def)
  have h2: "(''captcha'', ''Captcha detected'') \<in> set [(''captcha'', ''Captcha detected'')]"
    by simp
  have h3: "str_in ''captcha''
              (r_text \<lparr>status_code = 200, r_text = ''captcha: user not found'', elapsed = 0,
                        encoded = Some ''captcha: user not found''\<rparr>)"
    by simp
  from failure_annotation_gives_unknown[OF h1 h2 h3,
      of "world_of [] (delivered 200 ''captcha: user not found'')" plain_config
         "''alice''" "''S''" "''https://s.example/alice''"]
  obtain q new hs rt comment where
    r: "site_result (world_of [] (delivered 200 ''captcha: user not found'')) plain_config
           ''alice'' ''S'' ''https://s.example/alice'' captcha_site
           (Delivered \<lparr>status_code = 200, r_text = ''captcha: user not found'', elapsed = 0,
                        encoded = Some ''captcha: user not found''\<rparr>) = Inr (q, new, hs, rt)"
       "qr_status q = UNKNOWN" "qr_context q = Some comment"
    and o: "(\<forall>(t2, c2) \<in> set [(''captcha'', ''Captcha detected'')].
               str_in t2 (r_text \<lparr>status_code = 200, r_text = ''captcha: user not found'',
                                     elapsed = 0, encoded = Some ''captcha: user not found''\<rparr>)
               \<longrightarrow> c2 = ''Captcha detected'') \<longrightarrow> comment = ''Captcha detected''"
    by blast
  from o have "comment = ''Captcha detected''" by simp
  with r h1 show ?thesis by (auto simp: delivered_def)
qed

subsection \<open>One round\<close>

text \<open>
  C4. The worker pool of a round is to have min(20, number of applicable sites) workers.
  With the two sites of \<open>mixed_catalog\<close>, of which one is for another kind of
  identifier and is skipped, the pool has two workers while one site is applicable.
\<close>

theorem pool_size_counts_skipped_sites:
  "pool_sizes (fst (sherlock (world_of [] (delivered 200 [])) plain_config
                        ''alice'' ''username'' mixed_catalog)) = [2]
   \<and> min 20 (length (filter (\<lambda>(name, ni). \<not> skipped plain_config ''username'' ni) mixed_catalog))
       = 1"
  by (simp add: eval_defs)

text \<open>
  C4, as the code has it: the pool has min(20, number of sites in the site data handed to
  the round) workers, skipped sites included; with no site at all no pool is created.
\<close>

theorem pool_size_follows_catalog:
  "max_workers site_data = min 20 (length site_data)
   \<and> pool_sizes (fst (sherlock w cfg username id_type site_data))
       = (if site_data = [] then [] else [min 20 (length site_data)])"
proof -
  have q: "pool_sizes ev = []"
    if "\<And>e. e \<in> set ev \<Longrightarrow> (\<exists>q. e = Update q) \<or> (\<exists>n r. e = Request n r) \<or> e = ResetIdentity"
    for ev using probe_events_quiet(2)[of ev] that by blast
  have d: "pool_sizes (fst (dispatch w cfg username id_type site_data res)) = []" for res
    by (rule q) (rule dispatch_events)
  have c: "pool_sizes (fst (collect w cfg username sd res)) = []" for sd res
    by (rule q) (use collect_events in blast)
  have "pool_sizes (fst (sherlock w cfg username id_type site_data))
       = (if site_data = [] then [] else [min 20 (length site_data)])"
  proof (cases rule: sherlock_events_cases[of site_data w cfg username id_type])
    case pool
    then show ?thesis by simp
  next
    case (dispatch_raises ev1 e)
    with d[of "[]"] show ?thesis by (simp add: pool_sizes_append)
  next
    case (collect_raises ev1 sd' res ev2 e)
    with d[of "[]"] c[of sd' res] show ?thesis by (simp add: pool_sizes_append)
  next
    case (returns ev1 sd' res ev2 res')
    with d[of "[]"] c[of sd' res] show ?thesis by (simp add: pool_sizes_append)
  qed
  then show ?thesis by (simp add: max_workers_def)
qed

theorem pool_size_follows_catalog_witness:
  "max_workers mixed_catalog = 2
   \<and> pool_sizes (fst (sherlock (world_of [] (delivered 200 [])) plain_config
                        ''alice'' ''username'' mixed_catalog)) = [2]"
  using pool_size_follows_catalog[of mixed_catalog "world_of [] (delivered 200 [])" plain_config
      "''alice''" "''username''"]
  by (simp add: mixed_catalog_def)

text \<open>
  C7. A site whose type differs from the kind of the identifier, or whose tags share
  nothing with a non-empty tag filter, gets no request, no result is handed to
  \<^verbatim>\<open>query_notify.update\<close> for it, and it is absent from the results of the round.
\<close>

theorem skipped_site_is_silent:
  assumes "distinct (map fst site_data)" and "(name, ni) \<in> set site_data"
      and "site_type ni \<noteq> id_type
           \<or> (tags cfg \<noteq> [] \<and> set (tags cfg) \<inter> set (site_tags ni) = {})"
  shows "name \<notin> set (probed (fst (sherlock w cfg username id_type site_data)))
       \<and> name \<notin> set (map qr_site_name (verdicts (fst (sherlock w cfg username id_type site_data))))
       \<and> (\<forall>sd' res. snd (sherlock w cfg username id_type site_data) = Inr (sd', res)
             \<longrightarrow> name \<notin> fst ` set res)"
proof -
  from assms(3) have sk: "skipped cfg id_type ni"
    by (auto simp: skipped_def)
  have none: "\<not> (\<exists>ni'. (name, ni') \<in> set site_data \<and> \<not> skipped cfg id_type ni')"
    using assms(1,2) sk eq_key_imp_eq_value by metis
  have keys: "name \<notin> fst ` set res"
    if "snd (dispatch w cfg username id_type site_data []) = Inr (sd', res)" for sd' res
    using dispatch_keys[OF that] none by auto
  have p: "name \<notin> set (probed (fst (sherlock w cfg username id_type site_data)))"
  proof
    assume "name \<in> set (probed (fst (sherlock w cfg username id_type site_data)))"
    then obtain req where "Request name req \<in> set (fst (sherlock w cfg username id_type site_data))"
      by (auto simp: in_probed)
    from dispatch_request[OF sherlock_request[OF this]] none show False by blast
  qed
  have v: "name \<notin> set (map qr_site_name (verdicts (fst (sherlock w cfg username id_type site_data))))"
  proof
    assume "name \<in> set (map qr_site_name (verdicts (fst (sherlock w cfg username id_type site_data))))"
    then obtain q where q: "Update q \<in> set (fst (sherlock w cfg username id_type site_data))"
      "qr_site_name q = name"
      by (auto simp: in_verdicts)
    from sherlock_update[OF q(1)] show False
    proof
      assume "Update q \<in> set (fst (dispatch w cfg username id_type site_data []))"
      from dispatch_update[OF this] q(2) none show False by blast
    next
      assume "\<exists>sd' res. snd (dispatch w cfg username id_type site_data []) = Inr (sd', res)
             \<and> Update q \<in> set (fst (collect w cfg username sd' res))"
      then obtain sd' res where d: "snd (dispatch w cfg username id_type site_data []) = Inr (sd', res)"
        and c: "Update q \<in> set (fst (collect w cfg username sd' res))" by blast
      from collect_events[OF c] q(2) have "name \<in> fst ` set res" by auto
      with keys[OF d] show False by simp
    qed
  qed
  have r: "name \<notin> fst ` set res'"
    if "snd (sherlock w cfg username id_type site_data) = Inr (sd', res')" for sd' res'
  proof -
    from sherlock_results[OF that] obtain res where
      d: "snd (dispatch w cfg username id_type site_data []) = Inr (sd', res)"
      and c: "snd (collect w cfg username sd' res) = Inr res'" by blast
    from collect_frame[OF c] have "fst ` set res' = fst ` set res"
      by (metis list.set_map)
    with keys[OF d] show ?thesis by simp
  qed
  from p v r show ?thesis by blast
qed

theorem skipped_site_is_silent_witness:
  "distinct (map fst mixed_catalog) \<and> (''G'', gaia_site) \<in> set mixed_catalog
   \<and> site_type gaia_site \<noteq> ''username''
   \<and> ''G'' \<notin> set (probed (fst (sherlock (world_of [] (delivered 200 [])) plain_config
                                  ''alice'' ''username'' mixed_catalog)))
   \<and> ''G'' \<notin> set (map qr_site_name
                      (verdicts (fst (sherlock (world_of [] (delivered 200 [])) plain_config
                                        ''alice'' ''username'' mixed_catalog))))
   \<and> probed (fst (sherlock (world_of [] (delivered 200 [])) plain_config
                       ''alice'' ''username'' mixed_catalog)) = [''A'']"
proof -
  have h1: "distinct (map fst mixed_catalog)" by (simp add: mixed_catalog_def)
  have h2: "(''G'', gaia_site) \<in> set mixed_catalog" by (simp add: mixed_catalog_def)
  have h3: "site_type gaia_site \<noteq> ''username''"
    by (simp add: site_type_def gaia_site_def plain_site_def)
  have h4: "probed (fst (sherlock (world_of [] (delivered 200 [])) plain_config
                       ''alice'' ''username'' mixed_catalog)) = [''A'']"
    by (simp add: eval_defs)
  from skipped_site_is_silent[OF h1 h2 disjI1[OF h3],
      of "world_of [] (delivered 200 [])" plain_config "''alice''"]
  show ?thesis using h1 h2 h3 h4 by simp
qed

text \<open>
  C9. Every request of a round goes to a site of the site data, and its method is HEAD
  when the site detects by status code and does not set \<^verbatim>\<open>request_head_only\<close> (or sets
  it to true), and GET when the site detects otherwise or sets \<^verbatim>\<open>request_head_only\<close>
  to false.
\<close>

theorem probe_method:
  assumes "distinct (map fst site_data)" and "(name, ni) \<in> set site_data"
      and "Request name req \<in> set (fst (sherlock w cfg username id_type site_data))"
  shows "(errorType ni = ''status_code'' \<and> request_head_only ni = None
            \<longrightarrow> req_method req = HEAD)
       \<and> (errorType ni = ''status_code'' \<and> request_head_only ni = Some True
            \<longrightarrow> req_method req = HEAD)
       \<and> (errorType ni \<noteq> ''status_code'' \<or> request_head_only ni = Some False
            \<longrightarrow> req_method req = GET)"
proof -
  from dispatch_request[OF sherlock_request[OF assms(3)]] obtain ni' where
    "(name, ni') \<in> set site_data" "req_method req = request_method ni'" by blast
  with assms(1,2) have "req_method req = request_method ni"
    using eq_key_imp_eq_value by metis
  then show ?thesis by (auto simp: request_method_def)
qed

theorem probe_method_witness:
  "distinct (map fst mixed_catalog) \<and> (''A'', plain_site ''status_code'') \<in> set mixed_catalog
   \<and> Request ''A'' (probe_request plain_config (plain_site ''status_code'') ''https://s.example/alice'')
        \<in> set (fst (sherlock (world_of [] (delivered 200 [])) plain_config
                       ''alice'' ''username'' mixed_catalog))
   \<and> errorType (plain_site ''status_code'') = ''status_code''
   \<and> request_head_only (plain_site ''status_code'') = None
   \<and> req_method (probe_request plain_config (plain_site ''status_code'') ''https://s.example/alice'')
       = HEAD"
proof -
  have h1: "distinct (map fst mixed_catalog)" by (simp add: mixed_catalog_def)
  have h2: "(''A'', plain_site ''status_code'') \<in> set mixed_catalog" by (simp add: mixed_catalog_def)
  have h3: "Request ''A'' (probe_request plain_config (plain_site ''status_code'') ''https://s.example/alice'')
        \<in> set (fst (sherlock (world_of [] (delivered 200 [])) plain_config
                       ''alice'' ''username'' mixed_catalog))"
    by (simp add: eval_defs)
  have h4: "errorType (plain_site ''status_code'') = ''status_code''
            \<and> request_head_only (plain_site ''status_code'') = None"
    by (simp add: plain_site_def)
  from probe_method[OF h1 h2 h3] h4
  show ?thesis using h1 h2 h3 by simp
qed

text \<open>
  C3. A site whose detection strategy is none of \<^verbatim>\<open>message\<close>, \<^verbatim>\<open>status_code\<close> and
  \<^verbatim>\<open>response_url\<close>, and whose probe is answered, is to be fatal for that site only. In
  the code the round stops there: with the site \<open>Bad\<close> before the site \<open>Good\<close>, both
  are probed, the run is aborted with the ValueError of \<open>Bad\<close>, and \<open>Good\<close> gets no
  verdict.
\<close>

theorem unknown_strategy_aborts_run:
  "fst (main 3 (world_of [] (delivered 200 [])) plain_config bogus_catalog [''alice''])
     = Aborted (ValueError ''bogus'' ''Bad'')
   \<and> probed (d_events (snd (main 3 (world_of [] (delivered 200 [])) plain_config
                                bogus_catalog [''alice'']))) = [''Bad'', ''Good'']
   \<and> verdicts (d_events (snd (main 3 (world_of [] (delivered 200 [])) plain_config
                                  bogus_catalog [''alice'']))) = []"
  by (simp add: eval_defs main_eval_defs numeral_3_eq_3)

text \<open>
  C3, as the code has it. Let a site of the site data (whose names are distinct) be
  probed in a round, let its probe be answered by a response with a non-zero status code
  whose body matches none of its failure annotations, and let its detection strategy be
  none of the three. Then building its result raises ValueError; the round ends in an
  exception and reports no completion; no result is reported for the site, and for the
  sites after it only the Illegal results of the first loop; and the iteration of the
  driver's loop that runs the round ends in an exception, which aborts the run.
\<close>

theorem unknown_strategy_aborts_round:
  assumes "distinct (map fst site_data)" and "site_data = pre @ (name, ni) # post"
      and "Request name req \<in> set (fst (sherlock w cfg username id_type site_data))"
      and "net w username name req = Delivered resp" and "status_code resp \<noteq> 0"
      and "\<forall>(t, c) \<in> set (case errors ni of None \<Rightarrow> [] | Some fe \<Rightarrow> fe).
             \<not> str_in t (r_text resp)"
      and "errorType ni \<notin> {''message'', ''status_code'', ''response_url''}"
  shows "(\<forall>u. site_result w cfg username name u ni (Delivered resp)
               = Inl (ValueError (errorType ni) name))
       \<and> (\<exists>e. snd (sherlock w cfg username id_type site_data) = Inl e)
       \<and> Finish \<notin> set (fst (sherlock w cfg username id_type site_data))
       \<and> (\<forall>q \<in> set (verdicts (fst (sherlock w cfg username id_type site_data))).
             qr_site_name q \<noteq> name
             \<and> (qr_site_name q \<in> fst ` set post \<longrightarrow> qr_status q = ILLEGAL))
       \<and> (\<forall>d. d_site_data d = site_data \<and> str_lower w username \<notin> d_already_checked d
             \<longrightarrow> fst (main_step w cfg username id_type d) \<noteq> None)"
proof -
  let ?run = "sherlock w cfg username id_type site_data"
  have mem: "(name, ni) \<in> set site_data" using assms(2) by simp
  from assms(1,2) have notin: "name \<notin> fst ` set pre" "fst ` set pre \<inter> fst ` set post = {}"
    by auto
  have vE: "site_result w cfg username name u ni (Delivered resp)
               = Inl (ValueError (errorType ni) name)" for u
    by (rule site_result_unknown_strategy[OF assms(7,5,6)])
  have rd: "Request name req \<in> set (fst (dispatch w cfg username id_type site_data []))"
    by (rule sherlock_request[OF assms(3)])
  from dispatch_request[OF rd] obtain ni0 where
    "(name, ni0) \<in> set site_data" "\<not> regex_rejects w ni0 username" by blast
  with assms(1) mem have nrej: "\<not> regex_rejects w ni username"
    using eq_key_imp_eq_value by metis
  have dispatch_verdict: "qr_status q = ILLEGAL \<and> qr_site_name q \<noteq> name"
    if "Update q \<in> set (fst (dispatch w cfg username id_type site_data []))" for q
  proof -
    from dispatch_update[OF that] obtain ni1 where
      i: "qr_status q = ILLEGAL" "(qr_site_name q, ni1) \<in> set site_data"
         "regex_rejects w ni1 username" by blast
    have "qr_site_name q \<noteq> name"
    proof
      assume "qr_site_name q = name"
      with i(2) assms(1) mem have "ni1 = ni" using eq_key_imp_eq_value by metis
      with i(3) nrej show False by simp
    qed
    with i(1) show ?thesis by simp
  qed
  have quiet: "Finish \<notin> set ev"
    if "\<And>e. e \<in> set ev \<Longrightarrow> (\<exists>q. e = Update q) \<or> (\<exists>n r. e = Request n r) \<or> e = ResetIdentity"
    for ev using probe_events_quiet(3)[of ev] that by blast
  have fd: "Finish \<notin> set (fst (dispatch w cfg username id_type site_data []))"
    by (rule quiet) (rule dispatch_events)
  have fc: "Finish \<notin> set (fst (collect w cfg username sd res))" for sd res
    by (rule quiet) (use collect_events in blast)
  have stops: "\<exists>e ev2. collect w cfg username sd' res = (ev2, Inl e)
           \<and> (\<forall>q. Update q \<in> set ev2 \<longrightarrow> qr_site_name q \<in> fst ` set pre)"
    if "dispatch w cfg username id_type site_data [] = (ev1, Inr (sd', res))" for ev1 sd' res
    by (rule collect_after_probe_of_unknown_strategy[OF assms(1,2) _ rd assms(4,5,6,7)])
       (simp add: that)
  have main: "(\<exists>e. snd ?run = Inl e) \<and> Finish \<notin> set (fst ?run)
       \<and> (\<forall>q \<in> set (verdicts (fst ?run)).
             qr_site_name q \<noteq> name
             \<and> (qr_site_name q \<in> fst ` set post \<longrightarrow> qr_status q = ILLEGAL))"
  proof (cases rule: sherlock_events_cases[of site_data w cfg username id_type])
    case pool
    with assms(3) show ?thesis by simp
  next
    case (dispatch_raises ev1 e)
    with fd dispatch_verdict show ?thesis
      by (auto simp: in_verdicts)
  next
    case (collect_raises ev1 sd' res ev2 e)
    from stops[OF collect_raises(2)] collect_raises(3)
    have names: "\<And>q. Update q \<in> set ev2 \<Longrightarrow> qr_site_name q \<in> fst ` set pre" by auto
    have "qr_site_name q \<noteq> name \<and> (qr_site_name q \<in> fst ` set post \<longrightarrow> qr_status q = ILLEGAL)"
      if "Update q \<in> set (fst ?run)" for q
    proof -
      from that collect_raises have "Update q \<in> set ev1 \<or> Update q \<in> set ev2" by auto
      then show ?thesis
      proof
        assume "Update q \<in> set ev1"
        with dispatch_verdict[of q] collect_raises(2) show ?thesis by simp
      next
        assume "Update q \<in> set ev2"
        from names[OF this] notin show ?thesis by auto
      qed
    qed
    moreover have "Finish \<notin> set (fst ?run)"
      using collect_raises fd fc[of sd' res] by auto
    ultimately show ?thesis using collect_raises(4) by (auto simp: in_verdicts)
  next
    case (returns ev1 sd' res ev2 res')
    from stops[OF returns(2)] returns(3) show ?thesis by auto
  qed
  have step: "fst (main_step w cfg username id_type d) \<noteq> None"
    if "d_site_data d = site_data" "str_lower w username \<notin> d_already_checked d" for d
    using that main by (auto simp: main_step_def Let_def split: prod.splits sum.splits)
  from vE main step show ?thesis by blast
qed

theorem unknown_strategy_aborts_round_witness:
  "distinct (map fst bogus_catalog)
   \<and> bogus_catalog = [] @ (''Bad'', plain_site ''bogus'') # [(''Good'', plain_site ''status_code'')]
   \<and> Request ''Bad'' (probe_request plain_config (plain_site ''bogus'') ''https://s.example/alice'')
        \<in> set (fst (sherlock (world_of [] (delivered 200 [])) plain_config ''alice'' ''username''
                       bogus_catalog))
   \<and> errorType (plain_site ''bogus'') \<notin> {''message'', ''status_code'', ''response_url''}
   \<and> (case errors (plain_site ''bogus'') of None \<Rightarrow> [] | Some fe \<Rightarrow> fe) = []
   \<and> (\<exists>e. snd (sherlock (world_of [] (delivered 200 [])) plain_config ''alice'' ''username''
                   bogus_catalog) = Inl e)
   \<and> Finish \<notin> set (fst (sherlock (world_of [] (delivered 200 [])) plain_config ''alice''
                            ''username'' bogus_catalog))"
proof -
  let ?w = "world_of [] (delivered 200 [])"
  let ?req = "probe_request plain_config (plain_site ''bogus'') ''https://s.example/alice''"
  let ?resp = "\<lparr>status_code = 200, r_text = [], elapsed = 0, encoded = Some []\<rparr>"
  have h1: "distinct (map fst bogus_catalog)" by (simp add: bogus_catalog_def)
  have h2: "bogus_catalog
              = [] @ (''Bad'', plain_site ''bogus'') # [(''Good'', plain_site ''status_code'')]"
    by (simp add: bogus_catalog_def)
  have h3: "Request ''Bad'' ?req
              \<in> set (fst (sherlock ?w plain_config ''alice'' ''username'' bogus_catalog))"
    by (simp add: eval_defs bogus_catalog_def)
  have h4: "net ?w ''alice'' ''Bad'' ?req = Delivered ?resp"
    by (simp add: world_of_def delivered_def)
  have h5: "status_code ?resp \<noteq> 0" by simp
  have e: "(case errors (plain_site ''bogus'') of None \<Rightarrow> [] | Some fe \<Rightarrow> fe) = []"
    by (simp add: plain_site_def)
  then have h6: "\<forall>(t, c) \<in> set (case errors (plain_site ''bogus'') of None \<Rightarrow> []
                                  | Some fe \<Rightarrow> fe). \<not> str_in t (r_text ?resp)"
    by simp
  have h7: "errorType (plain_site ''bogus'') \<notin> {''message'', ''status_code'', ''response_url''}"
    by (simp add: plain_site_def)
  from unknown_strategy_aborts_round[OF h1 h2 h3 h4 h5 h6 h7]
  show ?thesis using h1 h2 h3 h7 e by blast
qed

subsection \<open>The driver\<close>

text \<open>
  C5. Completion is to be reported to the sink exactly once in a run, when the queue is
  empty. A run for the two identifiers \<open>alice\<close> and \<open>bob\<close> ends normally and has
  reported completion twice.
\<close>

theorem completion_reported_twice:
  "fst (main 3 (world_of [] (delivered 200 [])) plain_config one_site [''alice'', ''bob''])
     = Finished
   \<and> count_list (d_events (snd (main 3 (world_of [] (delivered 200 [])) plain_config one_site
                                    [''alice'', ''bob'']))) Finish = 2"
  by (simp add: eval_defs main_eval_defs numeral_3_eq_3)

text \<open>
  C5, as the code has it. A round that returns reports completion exactly once, as its
  last event, and a round that raises does not report it. So a run has never reported
  more completions than it has started rounds, and the events of a run that was not
  aborted are a sequence of completed rounds, each from its start notification to its one
  completion report, which comes last: one completion report for each identifier
  dispatched. The loop that finds the queue empty ends without reporting anything.
\<close>

theorem completion_reported_after_each_round:
  "(case snd (sherlock w cfg username id_type site_data) of
      Inr r \<Rightarrow>
        (\<exists>ev. fst (sherlock w cfg username id_type site_data)
                = Start username id_type # ev @ [Finish]
              \<and> Finish \<notin> set ev \<and> starts ev = [])
    | Inl e \<Rightarrow> Finish \<notin> set (fst (sherlock w cfg username id_type site_data)))
   \<and> count_list (d_events (snd (main fuel w cfg site_data args_username))) Finish
       \<le> length (starts (d_events (snd (main fuel w cfg site_data args_username))))
   \<and> ((\<forall>err. fst (main fuel w cfg site_data args_username) \<noteq> Aborted err)
        \<longrightarrow> (\<exists>rounds.
               d_events (snd (main fuel w cfg site_data args_username)) = concat rounds
             \<and> list_all is_round rounds
             \<and> length rounds
                 = length (starts (d_events (snd (main fuel w cfg site_data args_username))))
             \<and> count_list (d_events (snd (main fuel w cfg site_data args_username))) Finish
                 = length rounds))
   \<and> main_loop fuel w cfg (d\<lparr>d_usernames := []\<rparr>) = (Finished, d\<lparr>d_usernames := []\<rparr>)"
proof -
  let ?d0 = "initial_driver site_data args_username"
  let ?run = "main fuel w cfg site_data args_username"
  have j0: "count_list (d_events ?d0) Finish = length (starts (d_events ?d0))"
    by (simp add: initial_driver_def)
  have r0: "d_events ?d0 = concat []" "list_all is_round []"
    by (simp_all add: initial_driver_def)
  obtain e d' where ml: "main_loop fuel w cfg ?d0 = (e, d')"
    by (cases "main_loop fuel w cfg ?d0")
  note c = main_loop_counts[OF ml j0]
  have le: "count_list (d_events (snd ?run)) Finish \<le> length (starts (d_events (snd ?run)))"
  proof (cases "tor cfg \<and> proxy cfg \<noteq> None")
    case True
    then show ?thesis by (simp add: main_def initial_driver_def)
  next
    case False
    then have "?run = (e, d')" by (auto simp: main_def ml)
    with c show ?thesis by simp
  qed
  have rounds: "\<exists>rounds. d_events (snd ?run) = concat rounds \<and> list_all is_round rounds
             \<and> length rounds = length (starts (d_events (snd ?run)))
             \<and> count_list (d_events (snd ?run)) Finish = length rounds"
    if na: "\<forall>err. fst ?run \<noteq> Aborted err"
  proof -
    have nt: "\<not> (tor cfg \<and> proxy cfg \<noteq> None)"
    proof
      assume "tor cfg \<and> proxy cfg \<noteq> None"
      then have "fst ?run = Aborted TorAndProxy" by (simp add: main_def)
      with na show False by blast
    qed
    then have run: "?run = (e, d')" by (auto simp: main_def ml)
    with na have "\<forall>err. e \<noteq> Aborted err" by simp
    from main_loop_rounds[OF ml r0 this] obtain rounds where
      rs: "d_events d' = concat rounds" "list_all is_round rounds" by blast
    from rs(1) run have ev: "d_events (snd ?run) = concat rounds" by simp
    from rounds_counts[OF rs(2)] ev
    have "length rounds = length (starts (d_events (snd ?run)))"
      "count_list (d_events (snd ?run)) Finish = length rounds"
      by simp_all
    with ev rs(2) show ?thesis by blast
  qed
  have q: "main_loop fuel w cfg (d\<lparr>d_usernames := []\<rparr>) = (Finished, d\<lparr>d_usernames := []\<rparr>)"
    by (cases fuel) simp_all
  from sherlock_round[of w cfg username id_type site_data] le rounds q
  show ?thesis by blast
qed

theorem completion_reported_after_each_round_witness:
  "fst (main 3 (world_of [] (delivered 200 [])) plain_config one_site
          [''alice'', ''Alice'', ''carol'']) = Finished
   \<and> starts (d_events (snd (main 3 (world_of [] (delivered 200 [])) plain_config one_site
                                [''alice'', ''Alice'', ''carol''])))
       = [''alice'', ''carol'']
   \<and> count_list (d_events (snd (main 3 (world_of [] (delivered 200 [])) plain_config one_site
                                    [''alice'', ''Alice'', ''carol'']))) Finish = 2"
proof -
  let ?run = "main 3 (world_of [] (delivered 200 [])) plain_config one_site
                [''alice'', ''Alice'', ''carol'']"
  have f: "fst ?run = Finished"
    by (simp add: eval_defs main_eval_defs numeral_3_eq_3)
  have s: "starts (d_events (snd ?run)) = [''alice'', ''carol'']"
    by (simp add: eval_defs main_eval_defs numeral_3_eq_3)
  note t = completion_reported_after_each_round[of "world_of [] (delivered 200 [])"
      plain_config "''alice''" "''username''" one_site 3 "[''alice'', ''Alice'', ''carol'']"]
  from f have na: "\<forall>err. fst ?run \<noteq> Aborted err" by simp
  have "\<exists>rounds. d_events (snd ?run) = concat rounds \<and> list_all is_round rounds
          \<and> length rounds = length (starts (d_events (snd ?run)))
          \<and> count_list (d_events (snd ?run)) Finish = length rounds"
    using t[THEN conjunct2, THEN conjunct2, THEN conjunct1] na by (rule mp)
  then have "count_list (d_events (snd ?run)) Finish = length (starts (d_events (snd ?run)))"
    by auto
  with f s show ?thesis by simp
qed



subsection \<open>Extracted identifiers\<close>




end
